theory Spec2Isabelle
  imports Complex_Main
begin

section \<open>Request admission core of hono-starter\<close>

text \<open>
  The development embeds the token helpers of \<^verbatim>\<open>src/lib/utils.ts\<close>, the authentication
  middleware of \<^verbatim>\<open>src/middleware/auth-middleware.ts\<close>, the role and permission
  middlewares of \<^verbatim>\<open>src/middleware/role-permission-middleware.ts\<close> and the Redis rate
  limiter of \<^verbatim>\<open>src/middleware/rate-limiter.ts\<close>.

  Conventions. JavaScript numbers that hold counts, seconds and millisecond timestamps are
  \<open>int\<close>. Strings are \<open>string\<close> over ASCII. \<^verbatim>\<open>Date.now()\<close> and
  \<^verbatim>\<open>Math.random()\<close> are arguments of the functions that read them. A middleware
  returns what it does with the request: it hands over to the next stage, it answers with a
  JSON response, or it throws.
\<close>

subsection \<open>Strings\<close>

text \<open>\<^verbatim>\<open>s.split(sep)\<close> for a separator of one character: never empty, \<^verbatim>\<open>"".split(",")\<close> is \<^verbatim>\<open>[""]\<close>.\<close>

fun js_split :: "char \<Rightarrow> string \<Rightarrow> string list" where
  "js_split sep [] = [[]]"
| "js_split sep (c # cs) =
     (if c = sep then [] # js_split sep cs
      else (case js_split sep cs of [] \<Rightarrow> [[c]] | w # ws \<Rightarrow> (c # w) # ws))"

text \<open>\<^verbatim>\<open>xs[i]\<close>: \<^verbatim>\<open>undefined\<close> out of range.\<close>

fun js_index :: "'a list \<Rightarrow> nat \<Rightarrow> 'a option" where
  "js_index [] i = None"
| "js_index (x # xs) 0 = Some x"
| "js_index (x # xs) (Suc i) = js_index xs i"

definition is_whitespace :: "char \<Rightarrow> bool" where
  "is_whitespace c \<longleftrightarrow> c \<in> set [CHR 0x09, CHR 0x0A, CHR 0x0B, CHR 0x0C, CHR 0x0D, CHR '' '']"

definition js_trim :: "string \<Rightarrow> string" where
  "js_trim s = rev (dropWhile is_whitespace (rev (dropWhile is_whitespace s)))"

text \<open>\<^verbatim>\<open>s.startsWith(p)\<close>.\<close>

fun startsWith :: "string \<Rightarrow> string \<Rightarrow> bool" where
  "startsWith s [] = True"
| "startsWith [] (p # ps) = False"
| "startsWith (c # cs) (p # ps) = (c = p \<and> startsWith cs ps)"

text \<open>\<^verbatim>\<open>n.toString()\<close> of an integer: decimal digits, a minus sign when negative.\<close>

fun digits :: "nat \<Rightarrow> string" where
  "digits n = (if n < 10 then [''0123456789'' ! n]
               else digits (n div 10) @ [''0123456789'' ! (n mod 10)])"

declare digits.simps [simp del]

definition toString :: "int \<Rightarrow> string" where
  "toString i = (if i < 0 then CHR ''-'' # digits (nat (- i)) else digits (nat i))"

subsection \<open>Outcomes\<close>

datatype exn =
    HTTPException nat string
  | Error string

datatype result =
    Next
  | Json string nat
  | Thrown exn

definition UNAUTHORIZED :: nat where "UNAUTHORIZED = 401"
definition FORBIDDEN :: nat where "FORBIDDEN = 403"
definition NOT_FOUND :: nat where "NOT_FOUND = 404"
definition TOO_MANY_REQUESTS :: nat where "TOO_MANY_REQUESTS = 429"

subsection \<open>Token payload and request context\<close>

text \<open>
  \<^verbatim>\<open>JwtPayload\<close> of \<^verbatim>\<open>src/lib/types.ts\<close>. \<^verbatim>\<open>exp\<close> is in seconds and need not be
  whole: the generators add \<^verbatim>\<open>Number(env.JWT_EXPIRES_IN) / 1000\<close>.
\<close>

record JwtPayload =
  sub :: string
  exp :: rat
  type :: "string option"

text \<open>
  The Hono context \<^verbatim>\<open>c\<close>: the request headers read by \<^verbatim>\<open>c.req.header\<close>, the
  variables \<^verbatim>\<open>jwtPayload\<close> and \<^verbatim>\<open>user\<close> read by \<^verbatim>\<open>c.get\<close> (\<open>None\<close> is
  \<^verbatim>\<open>undefined\<close> or \<^verbatim>\<open>null\<close>), and the response headers written by
  \<^verbatim>\<open>c.header\<close>.
\<close>

record Context =
  req_header :: "string \<rightharpoonup> string"
  jwtPayload :: "JwtPayload option"
  user :: "JwtPayload option"
  res_header :: "string \<rightharpoonup> string"

definition header :: "Context \<Rightarrow> string \<Rightarrow> string \<Rightarrow> Context" where
  "header c name v = c\<lparr>res_header := (res_header c)(name \<mapsto> v)\<rparr>"

text \<open>\<^verbatim>\<open>a || b\<close> for an optional string \<open>a\<close>: \<^verbatim>\<open>undefined\<close> and the empty string are falsy.\<close>

definition js_or :: "string option \<Rightarrow> string \<Rightarrow> string" where
  "js_or a b = (case a of None \<Rightarrow> b | Some s \<Rightarrow> if s = [] then b else s)"

subsection \<open>Rate-limit keys\<close>

definition defaultKeyGenerator :: "Context \<Rightarrow> string" where
  "defaultKeyGenerator c =
     (let forwarded = req_header c ''x-forwarded-for'';
          fallback = js_or (req_header c ''x-real-ip'') ''unknown'';
          ip = (case forwarded of
                  None \<Rightarrow> fallback
                | Some f \<Rightarrow>
                    if f = [] then fallback
                    else js_trim (case js_index (js_split CHR '','' f) 0 of
                                    Some s \<Rightarrow> s | None \<Rightarrow> []))
      in ''rate-limit:'' @ ip)"

text \<open>The key generator installed by \<^verbatim>\<open>rateLimiterByUser\<close>.\<close>

definition rateLimiterByUser_keyGenerator :: "Context \<Rightarrow> string" where
  "rateLimiterByUser_keyGenerator c =
     (case user c of
        Some u \<Rightarrow> ''rate-limit:user:'' @ sub u
      | None \<Rightarrow> defaultKeyGenerator c)"

subsection \<open>Tokens\<close>

text \<open>The settings of \<^verbatim>\<open>src/application/env.ts\<close> that the core reads.\<close>

record env =
  JWT_SECRET :: string
  JWT_EXPIRES_IN :: int
  REFRESH_TOKEN_SECRET :: string
  REFRESH_TOKEN_EXPIRES_IN :: int
  RATE_LIMITER_MAX_REQUESTS :: int
  RATE_LIMITER_WINDOW_MS :: int

type_synonym verifier = "string \<Rightarrow> string \<Rightarrow> exn + JwtPayload"





text \<open>Both verifiers catch whatever \<^verbatim>\<open>verify\<close> throws and return \<^verbatim>\<open>null\<close>.\<close>

definition verifyAccessToken :: "verifier \<Rightarrow> env \<Rightarrow> string \<Rightarrow> JwtPayload option" where
  "verifyAccessToken verify e token =
     (case verify token (JWT_SECRET e) of
        Inl err \<Rightarrow> None
      | Inr decode \<Rightarrow> Some decode)"


subsection \<open>Authentication middleware\<close>

text \<open>
  What \<^verbatim>\<open>authMiddleware\<close> does: it answers without calling \<^verbatim>\<open>next\<close>, or it calls
  \<^verbatim>\<open>next\<close> on the context it has prepared and returns, or it calls \<^verbatim>\<open>next\<close>, catches
  what \<^verbatim>\<open>next\<close> throws and answers.
\<close>

datatype auth_result =
    Answered string nat
  | Called_next
  | Called_next_then_answered string nat

text \<open>
  \<open>next c\<close> is \<open>Some err\<close> when the awaited \<^verbatim>\<open>next()\<close> rejects with \<open>err\<close>.
  \<^verbatim>\<open>auth.split(" ")[1]\<close> is defined whenever the prefix test has passed; for
  \<^verbatim>\<open>undefined\<close> the library's \<^verbatim>\<open>verify\<close> throws, which \<^verbatim>\<open>verifyAccessToken\<close>
  turns into \<^verbatim>\<open>null\<close>.
\<close>

definition authMiddleware ::
  "verifier \<Rightarrow> env \<Rightarrow> (Context \<Rightarrow> exn option) \<Rightarrow> Context \<Rightarrow> auth_result \<times> Context" where
  "authMiddleware verify e next c =
     (case req_header c ''Authorization'' of
        None \<Rightarrow> (Answered ''Invalid or expired token'' UNAUTHORIZED, c)
      | Some auth \<Rightarrow>
          if \<not> startsWith auth ''Bearer ''
          then (Answered ''Invalid or expired token'' UNAUTHORIZED, c)
          else
            (let token = js_index (js_split CHR '' '' auth) 1;
                 payload = (case token of
                              None \<Rightarrow> None
                            | Some t \<Rightarrow> verifyAccessToken verify e t);
                 c' = c\<lparr>jwtPayload := payload\<rparr>
             in case next c' of
                  None \<Rightarrow> (Called_next, c')
                | Some err \<Rightarrow>
                    (Called_next_then_answered ''Invalid or expired token'' UNAUTHORIZED, c')))"

subsection \<open>Role and permission middlewares\<close>

text \<open>
  The rows that the Prisma queries select, with the join rows flattened:
  \<^verbatim>\<open>ur.role.name\<close> is \<open>name\<close> of a role, \<^verbatim>\<open>rp.permission.name\<close> an element of
  \<open>role_permissions\<close>, \<^verbatim>\<open>up.permission.name\<close> an element of \<open>user_permissions\<close>.
\<close>

record Role =
  name :: string
  role_permissions :: "string list"

record User =
  user_roles :: "Role list"
  user_permissions :: "string list"

text \<open>
  \<^verbatim>\<open>prisma.user.findUnique({ where: { id } })\<close>: the user, \<^verbatim>\<open>null\<close> when no row has
  this id, or a rejection when the database fails.
\<close>

type_synonym prisma = "string \<Rightarrow> exn + User option"

text \<open>The three steps that all six middlewares share before their own test.\<close>

definition load_user :: "prisma \<Rightarrow> Context \<Rightarrow> result + User" where
  "load_user findUnique c =
     (case jwtPayload c of
        None \<Rightarrow> Inl (Thrown (HTTPException UNAUTHORIZED ''Invalid or expired token''))
      | Some p \<Rightarrow>
          (case findUnique (sub p) of
             Inl err \<Rightarrow> Inl (Thrown err)
           | Inr None \<Rightarrow> Inl (Thrown (HTTPException NOT_FOUND ''User not found''))
           | Inr (Some u) \<Rightarrow> Inr u))"

definition access_denied :: result where
  "access_denied = Thrown (HTTPException FORBIDDEN ''Access denied'')"

definition requireRole :: "string \<Rightarrow> prisma \<Rightarrow> Context \<Rightarrow> result" where
  "requireRole roleName findUnique c =
     (case load_user findUnique c of
        Inl r \<Rightarrow> r
      | Inr u \<Rightarrow>
          (let hasRole = list_ex (\<lambda>ur. name ur = roleName) (user_roles u)
           in if \<not> hasRole then access_denied else Next))"

definition requireAnyRole :: "string list \<Rightarrow> prisma \<Rightarrow> Context \<Rightarrow> result" where
  "requireAnyRole roleNames findUnique c =
     (case load_user findUnique c of
        Inl r \<Rightarrow> r
      | Inr u \<Rightarrow>
          (let hasAnyRole = list_ex (\<lambda>ur. name ur \<in> set roleNames) (user_roles u)
           in if \<not> hasAnyRole then access_denied else Next))"

definition requireAllRoles :: "string list \<Rightarrow> prisma \<Rightarrow> Context \<Rightarrow> result" where
  "requireAllRoles roleNames findUnique c =
     (case load_user findUnique c of
        Inl r \<Rightarrow> r
      | Inr u \<Rightarrow>
          (let userRoles = map name (user_roles u);
               hasAllRoles = list_all (\<lambda>roleName. roleName \<in> set userRoles) roleNames
           in if \<not> hasAllRoles then access_denied else Next))"

text \<open>\<^verbatim>\<open>[...new Set(xs)]\<close>: the elements in the order of their first occurrence.\<close>

definition js_Set :: "'a list \<Rightarrow> 'a list" where
  "js_Set xs = fold (\<lambda>x s. if x \<in> set s then s else s @ [x]) xs []"

definition allPermissions :: "User \<Rightarrow> string list" where
  "allPermissions u =
     (let rolePermissions = concat (map role_permissions (user_roles u));
          directPermissions = user_permissions u
      in js_Set (rolePermissions @ directPermissions))"

definition requirePermission :: "string \<Rightarrow> prisma \<Rightarrow> Context \<Rightarrow> result" where
  "requirePermission permissionName findUnique c =
     (case load_user findUnique c of
        Inl r \<Rightarrow> r
      | Inr u \<Rightarrow>
          (let hasPermission = permissionName \<in> set (allPermissions u)
           in if \<not> hasPermission then access_denied else Next))"

definition requireAnyPermission :: "string list \<Rightarrow> prisma \<Rightarrow> Context \<Rightarrow> result" where
  "requireAnyPermission permissionNames findUnique c =
     (case load_user findUnique c of
        Inl r \<Rightarrow> r
      | Inr u \<Rightarrow>
          (let hasAnyPermission =
                 list_ex (\<lambda>permission. permission \<in> set (allPermissions u)) permissionNames
           in if \<not> hasAnyPermission then access_denied else Next))"

definition requireAllPermissions :: "string list \<Rightarrow> prisma \<Rightarrow> Context \<Rightarrow> result" where
  "requireAllPermissions permissionNames findUnique c =
     (case load_user findUnique c of
        Inl r \<Rightarrow> r
      | Inr u \<Rightarrow>
          (let hasAllPermissions =
                 list_all (\<lambda>permission. permission \<in> set (allPermissions u)) permissionNames
           in if \<not> hasAllPermissions then access_denied else Next))"

subsection \<open>The Redis client\<close>

text \<open>
  The part of Redis that the limiter uses. A sorted set is a list of (member, score) pairs
  with distinct members; a key without members does not exist. \<open>expire_at\<close> is the
  deadline, in milliseconds, after which the key is gone; every command first drops a key
  whose deadline has passed. The server reads the same clock as the application.
  \<open>failing cmd\<close> says that the command is rejected: the awaited call throws, because
  the server answers with an error or the connection breaks after the command was sent.
\<close>

datatype redis_cmd = ZREMRANGEBYSCORE | ZCARD | ZADD | EXPIRE

type_synonym zset = "(string \<times> int) list"

record Redis =
  zsets :: "string \<Rightarrow> zset"
  expire_at :: "string \<Rightarrow> int option"
  failing :: "redis_cmd \<Rightarrow> bool"

definition del :: "string \<Rightarrow> Redis \<Rightarrow> Redis" where
  "del key r = r\<lparr>zsets := (zsets r)(key := []), expire_at := (expire_at r)(key := None)\<rparr>"

definition evict :: "int \<Rightarrow> string \<Rightarrow> Redis \<Rightarrow> Redis" where
  "evict now key r =
     (case expire_at r key of
        None \<Rightarrow> r
      | Some deadline \<Rightarrow> if deadline < now then del key r else r)"

text \<open>The members and scores that the store holds under \<open>key\<close> at time \<open>now\<close>.\<close>

definition entries :: "Redis \<Rightarrow> int \<Rightarrow> string \<Rightarrow> zset" where
  "entries r now key = zsets (evict now key r) key"

definition put :: "string \<Rightarrow> zset \<Rightarrow> Redis \<Rightarrow> Redis" where
  "put key zs r = (if zs = [] then del key r else r\<lparr>zsets := (zsets r)(key := zs)\<rparr>)"

definition redis_error :: "redis_cmd \<Rightarrow> exn" where
  "redis_error cmd = Error ''redis command failed''"

text \<open>\<^verbatim>\<open>ZREMRANGEBYSCORE key min max\<close> removes the members with \<open>min \<le> score \<le> max\<close>.\<close>

definition zRemRangeByScore :: "Redis \<Rightarrow> int \<Rightarrow> string \<Rightarrow> int \<Rightarrow> int \<Rightarrow> exn + Redis" where
  "zRemRangeByScore r now key lo hi =
     (if failing r ZREMRANGEBYSCORE then Inl (redis_error ZREMRANGEBYSCORE)
      else (let r' = evict now key r
            in Inr (put key (filter (\<lambda>(member, score). \<not> (lo \<le> score \<and> score \<le> hi))
                                (zsets r' key)) r')))"

definition zCard :: "Redis \<Rightarrow> int \<Rightarrow> string \<Rightarrow> exn + int" where
  "zCard r now key =
     (if failing r ZCARD then Inl (redis_error ZCARD)
      else Inr (int (length (entries r now key))))"

text \<open>\<^verbatim>\<open>ZADD\<close> adds a new member, or sets the score of a member that is already there.\<close>

definition zAdd :: "Redis \<Rightarrow> int \<Rightarrow> string \<Rightarrow> int \<Rightarrow> string \<Rightarrow> exn + Redis" where
  "zAdd r now key score v =
     (if failing r ZADD then Inl (redis_error ZADD)
      else (let r' = evict now key r;
                zs = zsets r' key
            in Inr (put key (if v \<in> set (map fst zs)
                             then map (\<lambda>(member, s). if member = v then (member, score) else (member, s)) zs
                             else zs @ [(v, score)]) r')))"

text \<open>
  \<^verbatim>\<open>EXPIRE key seconds\<close>: nothing on a key that does not exist; a timeout that is not
  positive deletes the key.
\<close>

definition expire :: "Redis \<Rightarrow> int \<Rightarrow> string \<Rightarrow> int \<Rightarrow> exn + Redis" where
  "expire r now key seconds =
     (if failing r EXPIRE then Inl (redis_error EXPIRE)
      else (let r' = evict now key r
            in if zsets r' key = [] then Inr r'
               else if seconds \<le> 0 then Inr (del key r')
               else Inr (r'\<lparr>expire_at := (expire_at r')(key \<mapsto> now + seconds * 1000)\<rparr>)))"

text \<open>\<^verbatim>\<open>getRedis\<close> of \<^verbatim>\<open>src/application/redis.ts\<close>; the argument is the module's \<^verbatim>\<open>redisClient\<close>.\<close>

definition getRedis :: "Redis option \<Rightarrow> exn + Redis" where
  "getRedis redisClient =
     (case redisClient of
        None \<Rightarrow> Inl (Error ''Redis client not initialized. Call initRedis() first.'')
      | Some client \<Rightarrow> Inr client)"

subsection \<open>Rate limiter\<close>

text \<open>A \<^verbatim>\<open>Response\<close> built by \<^verbatim>\<open>c.json({ message }, status)\<close>: the message and the status.\<close>

type_synonym response = "string \<times> nat"

record RateLimitOptions =
  max_opt :: "int option"
  windowInSeconds :: "int option"
  keyGenerator :: "(Context \<Rightarrow> string) option"
  handler :: "(Context \<Rightarrow> response) option"
  skip :: "(Context \<Rightarrow> bool) option"

definition defaultHandler :: "Context \<Rightarrow> response" where
  "defaultHandler c = (''Too many requests, please try again later.'', TOO_MANY_REQUESTS)"

text \<open>
  The destructuring of \<^verbatim>\<open>options\<close> with its defaults (the field \<^verbatim>\<open>max\<close> is
  \<open>max_opt\<close> here).
\<close>

definition max_of :: "env \<Rightarrow> RateLimitOptions \<Rightarrow> int" where
  "max_of e options =
     (case max_opt options of None \<Rightarrow> RATE_LIMITER_MAX_REQUESTS e | Some m \<Rightarrow> m)"

definition windowInSeconds_of :: "env \<Rightarrow> RateLimitOptions \<Rightarrow> int" where
  "windowInSeconds_of e options =
     (case windowInSeconds options of
        None \<Rightarrow> RATE_LIMITER_WINDOW_MS e div 1000
      | Some w \<Rightarrow> w)"

definition keyGenerator_of :: "RateLimitOptions \<Rightarrow> Context \<Rightarrow> string" where
  "keyGenerator_of options =
     (case keyGenerator options of None \<Rightarrow> defaultKeyGenerator | Some g \<Rightarrow> g)"

definition handler_of :: "RateLimitOptions \<Rightarrow> Context \<Rightarrow> response" where
  "handler_of options =
     (case handler options of None \<Rightarrow> defaultHandler | Some h \<Rightarrow> h)"

definition skipped :: "RateLimitOptions \<Rightarrow> Context \<Rightarrow> bool" where
  "skipped options c = (case skip options of None \<Rightarrow> False | Some f \<Rightarrow> f c)"

text \<open>\<^verbatim>\<open>Math.ceil(x / 1000)\<close> for an integer \<open>x\<close>.\<close>

definition ceil_div_1000 :: "int \<Rightarrow> int" where
  "ceil_div_1000 x = - ((- x) div 1000)"

text \<open>
  The body of the \<^verbatim>\<open>try\<close> block for the limit \<open>mx\<close>, the window \<open>w\<close> and the
  handler \<open>h\<close>. \<open>Inl\<close> is a throw, with the context and the store as they were when
  the command failed; \<open>rnd\<close> is the text of \<^verbatim>\<open>Math.random()\<close>.
\<close>

definition limiter_try ::
  "int \<Rightarrow> int \<Rightarrow> (Context \<Rightarrow> response) \<Rightarrow> string \<Rightarrow> int \<Rightarrow> string \<Rightarrow> Context \<Rightarrow> Redis
     \<Rightarrow> (exn \<times> Context \<times> Redis) + (result \<times> Context \<times> Redis)" where
  "limiter_try mx w h key now rnd c redis =
     (let windowStart = now - w * 1000
      in case zRemRangeByScore redis now key 0 windowStart of
           Inl err \<Rightarrow> Inl (err, c, redis)
         | Inr r1 \<Rightarrow>
             (case zCard r1 now key of
                Inl err \<Rightarrow> Inl (err, c, r1)
              | Inr requestCount \<Rightarrow>
                  (let c1 = header c ''X-RateLimit-Limit'' (toString mx);
                       c2 = header c1 ''X-RateLimit-Remaining''
                              (toString (max 0 (mx - requestCount - 1)));
                       c3 = header c2 ''X-RateLimit-Reset''
                              (toString (ceil_div_1000 (now + w * 1000)))
                   in if requestCount \<ge> mx
                      then (let c4 = header c3 ''Retry-After'' (toString w)
                            in Inr (Json (fst (h c4)) (snd (h c4)), c4, r1))
                      else
                        (case zAdd r1 now key now (toString now @ ''-'' @ rnd) of
                           Inl err \<Rightarrow> Inl (err, c3, r1)
                         | Inr r2 \<Rightarrow>
                             (case expire r2 now key w of
                                Inl err \<Rightarrow> Inl (err, c3, r2)
                              | Inr r3 \<Rightarrow> Inr (Next, c3, r3))))))"

text \<open>
  \<^verbatim>\<open>rateLimiter(options)\<close> applied to a request: the result, the context and the
  module's \<^verbatim>\<open>redisClient\<close> afterwards. The \<^verbatim>\<open>catch\<close> clause logs the error and
  calls \<^verbatim>\<open>next\<close>.
\<close>

definition rateLimiter ::
  "env \<Rightarrow> RateLimitOptions \<Rightarrow> Redis option \<Rightarrow> int \<Rightarrow> string \<Rightarrow> Context
     \<Rightarrow> result \<times> Context \<times> Redis option" where
  "rateLimiter e options redisClient now rnd c =
     (if skipped options c then (Next, c, redisClient)
      else
        (case getRedis redisClient of
           Inl err \<Rightarrow> (Thrown err, c, redisClient)
         | Inr redis \<Rightarrow>
             (case limiter_try (max_of e options) (windowInSeconds_of e options)
                     (handler_of options) (keyGenerator_of options c) now rnd c redis of
                Inl (err, c', redis') \<Rightarrow> (Next, c', Some redis')
              | Inr (res, c', redis') \<Rightarrow> (res, c', Some redis'))))"

text \<open>
  Requests that are served one after the other: the limiter has finished with a request,
  all its store commands included, before it starts with the next. Each request has its own
  reading of the clock and of \<^verbatim>\<open>Math.random()\<close>, and all have the same request headers.
  The results in order of arrival, and the client afterwards.
\<close>

fun serve ::
  "env \<Rightarrow> RateLimitOptions \<Rightarrow> Redis option \<Rightarrow> Context \<Rightarrow> (int \<times> string) list
     \<Rightarrow> result list \<times> Redis option" where
  "serve e options redisClient c [] = ([], redisClient)"
| "serve e options redisClient c ((now, rnd) # requests) =
     (case rateLimiter e options redisClient now rnd c of
        (res, c', redisClient') \<Rightarrow>
          (case serve e options redisClient' c requests of
             (results, redisClient'') \<Rightarrow> (res # results, redisClient'')))"

text \<open>
  Requests that overlap. The limiter awaits each of its four store commands on its own and
  uses no transaction, so the commands of two requests for one key can interleave. The two
  halves of the \<^verbatim>\<open>try\<close> block, on the store alone: pruning and counting, and recording.
\<close>

definition limiter_count :: "int \<Rightarrow> string \<Rightarrow> int \<Rightarrow> Redis \<Rightarrow> exn + (int \<times> Redis)" where
  "limiter_count w key now redis =
     (case zRemRangeByScore redis now key 0 (now - w * 1000) of
        Inl err \<Rightarrow> Inl err
      | Inr r1 \<Rightarrow>
          (case zCard r1 now key of
             Inl err \<Rightarrow> Inl err
           | Inr requestCount \<Rightarrow> Inr (requestCount, r1)))"

definition limiter_record :: "int \<Rightarrow> string \<Rightarrow> int \<Rightarrow> string \<Rightarrow> Redis \<Rightarrow> exn + Redis" where
  "limiter_record w key now rnd redis =
     (case zAdd redis now key now (toString now @ ''-'' @ rnd) of
        Inl err \<Rightarrow> Inl err
      | Inr r2 \<Rightarrow> expire r2 now key w)"

text \<open>
  Two requests \<open>a\<close> and \<open>b\<close> for one key, each a reading of the clock and of
  \<^verbatim>\<open>Math.random()\<close>, in this order of commands: \<open>a\<close> prunes and counts, \<open>b\<close> prunes
  and counts, \<open>a\<close> tests its count and records, \<open>b\<close> tests its count and records.
  The result says which of the two were let through, and gives the store afterwards.
\<close>

definition overlapping ::
  "int \<Rightarrow> int \<Rightarrow> string \<Rightarrow> int \<times> string \<Rightarrow> int \<times> string \<Rightarrow> Redis
     \<Rightarrow> exn + (bool \<times> bool \<times> Redis)" where
  "overlapping mx w key a b redis =
     (case limiter_count w key (fst a) redis of
        Inl err \<Rightarrow> Inl err
      | Inr (countA, r1) \<Rightarrow>
          (case limiter_count w key (fst b) r1 of
             Inl err \<Rightarrow> Inl err
           | Inr (countB, r2) \<Rightarrow>
               (case (if countA \<ge> mx then Inr r2
                      else limiter_record w key (fst a) (snd a) r2) of
                  Inl err \<Rightarrow> Inl err
                | Inr r3 \<Rightarrow>
                    (case (if countB \<ge> mx then Inr r3
                           else limiter_record w key (fst b) (snd b) r3) of
                       Inl err \<Rightarrow> Inl err
                     | Inr r4 \<Rightarrow> Inr (\<not> countA \<ge> mx, \<not> countB \<ge> mx, r4)))))"

text \<open>
  A server out of reach. \<^verbatim>\<open>initRedis\<close> builds the client with \<^verbatim>\<open>createClient({ url })\<close>
  and no other option, which keeps the client's offline queue: a command that is issued
  while the socket is down waits in the queue for the reconnection. As long as the server
  stays out of reach the awaited command does not settle, and the limiter neither answers
  nor calls \<^verbatim>\<open>next\<close>: \<open>None\<close>.
\<close>

datatype socket = Ready | Reconnecting

definition rateLimiter_on ::
  "socket \<Rightarrow> env \<Rightarrow> RateLimitOptions \<Rightarrow> Redis option \<Rightarrow> int \<Rightarrow> string \<Rightarrow> Context
     \<Rightarrow> (result \<times> Context \<times> Redis option) option" where
  "rateLimiter_on socket e options redisClient now rnd c =
     (if skipped options c then Some (Next, c, redisClient)
      else
        (case getRedis redisClient of
           Inl err \<Rightarrow> Some (Thrown err, c, redisClient)
         | Inr redis \<Rightarrow>
             (case socket of
                Reconnecting \<Rightarrow> None
              | Ready \<Rightarrow> Some (rateLimiter e options redisClient now rnd c))))"

definition no_options :: RateLimitOptions where
  "no_options = \<lparr>max_opt = None, windowInSeconds = None, keyGenerator = None,
                  handler = None, skip = None\<rparr>"

text \<open>The options of the preset \<^verbatim>\<open>strictRateLimiter\<close>.\<close>

definition strictRateLimiter_options :: RateLimitOptions where
  "strictRateLimiter_options = no_options\<lparr>max_opt := Some 10, windowInSeconds := Some 60\<rparr>"

text \<open>\<^verbatim>\<open>rateLimiterByUser(options)\<close> replaces the key generator of the options it is given.\<close>

definition rateLimiterByUser ::
  "env \<Rightarrow> RateLimitOptions \<Rightarrow> Redis option \<Rightarrow> int \<Rightarrow> string \<Rightarrow> Context
     \<Rightarrow> result \<times> Context \<times> Redis option" where
  "rateLimiterByUser e options =
     rateLimiter e (options\<lparr>keyGenerator := Some rateLimiterByUser_keyGenerator\<rparr>)"

subsection \<open>Example data\<close>

definition ctx0 :: Context where
  "ctx0 = \<lparr>req_header = Map.empty, jwtPayload = None, user = None, res_header = Map.empty\<rparr>"


definition ctx_real_ip :: Context where
  "ctx_real_ip = ctx0\<lparr>req_header := [''x-real-ip'' \<mapsto> ''9.9.9.9'']\<rparr>"

definition alice :: JwtPayload where
  "alice = \<lparr>sub = ''42'', exp = 2000, type = None\<rparr>"

definition ctx_alice :: Context where
  "ctx_alice = ctx0\<lparr>jwtPayload := Some alice\<rparr>"


definition env0 :: env where
  "env0 = \<lparr>JWT_SECRET = ''s3cret'', JWT_EXPIRES_IN = 300000,
            REFRESH_TOKEN_SECRET = ''s3cret'', REFRESH_TOKEN_EXPIRES_IN = 604800000,
            RATE_LIMITER_MAX_REQUESTS = 100, RATE_LIMITER_WINDOW_MS = 60000\<rparr>"

text \<open>A database without users, and one where user 42 is an analyst with a direct grant.\<close>

definition no_users :: prisma where
  "no_users uid = Inr None"

definition analyst :: Role where
  "analyst = \<lparr>name = ''analyst'', role_permissions = [''report.view'']\<rparr>"

definition editor :: Role where
  "editor = \<lparr>name = ''editor'', role_permissions = [''post.publish'', ''report.view'']\<rparr>"

definition user42 :: User where
  "user42 = \<lparr>user_roles = [analyst, editor], user_permissions = [''report.view'']\<rparr>"

definition one_user :: prisma where
  "one_user uid = (if uid = ''42'' then Inr (Some user42) else Inr None)"

text \<open>
  A \<^verbatim>\<open>verify\<close> that throws on every token, a \<^verbatim>\<open>sign\<close> that always yields the same
  text, and a \<^verbatim>\<open>verify\<close> that accepts this text under the secret of \<open>env0\<close> and
  returns the access payload that \<open>env0\<close> gives user 42 at time 1000.
\<close>

definition verify_none :: verifier where
  "verify_none token secret = Inl (Error ''JwtTokenInvalid'')"




definition next_ok :: "Context \<Rightarrow> exn option" where
  "next_ok c = None"

definition ctx_bad_token :: Context where
  "ctx_bad_token = ctx0\<lparr>req_header := [''Authorization'' \<mapsto> ''Bearer not.a.token'']\<rparr>"

definition ctx_basic_auth :: Context where
  "ctx_basic_auth = ctx0\<lparr>req_header := [''Authorization'' \<mapsto> ''Basic dXNlcjpwYXNz'']\<rparr>"

text \<open>
  A store without keys, the same store rejecting every command, and one that rejects only
  \<^verbatim>\<open>ZADD\<close>.
\<close>

definition redis_empty :: Redis where
  "redis_empty = \<lparr>zsets = (\<lambda>key. []), expire_at = (\<lambda>key. None), failing = (\<lambda>cmd. False)\<rparr>"

definition redis_down :: Redis where
  "redis_down = redis_empty\<lparr>failing := (\<lambda>cmd. True)\<rparr>"

definition redis_zadd_down :: Redis where
  "redis_zadd_down = redis_empty\<lparr>failing := (\<lambda>cmd. cmd = ZADD)\<rparr>"

text \<open>
  Limits of one request per second, of two per minute and of none at all, and the store as
  the first of them leaves it after a request of the address 9.9.9.9 at time 1000.
\<close>

definition one_per_second :: RateLimitOptions where
  "one_per_second = no_options\<lparr>max_opt := Some 1, windowInSeconds := Some 1\<rparr>"

definition two_per_minute :: RateLimitOptions where
  "two_per_minute = no_options\<lparr>max_opt := Some 2, windowInSeconds := Some 60\<rparr>"

definition none_per_minute :: RateLimitOptions where
  "none_per_minute = no_options\<lparr>max_opt := Some 0, windowInSeconds := Some 60\<rparr>"

definition redis_after_1000 :: Redis where
  "redis_after_1000 =
     \<lparr>zsets = (\<lambda>key. if key = ''rate-limit:9.9.9.9'' then [(''1000-0.1'', 1000)] else []),
      expire_at = (\<lambda>key. if key = ''rate-limit:9.9.9.9'' then Some 2000 else None),
      failing = (\<lambda>cmd. False)\<rparr>"

section \<open>Rate-limit keys\<close>






text \<open>
  C10. When no user is set on the context, the key generator of \<^verbatim>\<open>rateLimiterByUser\<close>
  returns the key of the default generator, and the per-user limiter does exactly what the
  limiter with the default generator does: the request is counted in the bucket of its
  address, or of the \<^verbatim>\<open>unknown\<close> sentinel.
\<close>

theorem rateLimiterByUser_without_user:
  assumes "user c = None"
  shows "rateLimiterByUser_keyGenerator c = defaultKeyGenerator c
       \<and> rateLimiterByUser e options redisClient now rnd c
           = rateLimiter e (options\<lparr>keyGenerator := None\<rparr>) redisClient now rnd c"
proof -
  let ?o1 = "options\<lparr>keyGenerator := Some rateLimiterByUser_keyGenerator\<rparr>"
  let ?o2 = "options\<lparr>keyGenerator := None\<rparr>"
  have key: "rateLimiterByUser_keyGenerator c = defaultKeyGenerator c"
    using assms by (simp add: rateLimiterByUser_keyGenerator_def)
  have eqs: "keyGenerator_of ?o1 c = keyGenerator_of ?o2 c"
    "max_of e ?o1 = max_of e ?o2" "windowInSeconds_of e ?o1 = windowInSeconds_of e ?o2"
    "handler_of ?o1 = handler_of ?o2" "skipped ?o1 c = skipped ?o2 c"
    by (simp_all add: keyGenerator_of_def key max_of_def windowInSeconds_of_def handler_of_def
        skipped_def)
  have "rateLimiter e ?o1 redisClient now rnd c = rateLimiter e ?o2 redisClient now rnd c"
    unfolding rateLimiter_def eqs by (rule refl)
  with key show ?thesis by (simp add: rateLimiterByUser_def)
qed

theorem rateLimiterByUser_without_user_witness:
  "user ctx_real_ip = None
   \<and> rateLimiterByUser_keyGenerator ctx_real_ip = ''rate-limit:9.9.9.9''
   \<and> defaultKeyGenerator ctx_real_ip = ''rate-limit:9.9.9.9''
   \<and> rateLimiterByUser_keyGenerator ctx0 = ''rate-limit:unknown''"
proof -
  have u: "user ctx_real_ip = None" by (simp add: ctx_real_ip_def ctx0_def)
  have u0: "user ctx0 = None" by (simp add: ctx0_def)
  have d: "defaultKeyGenerator ctx_real_ip = ''rate-limit:9.9.9.9''"
    by (simp add: defaultKeyGenerator_def ctx_real_ip_def ctx0_def js_or_def)
  have d0: "defaultKeyGenerator ctx0 = ''rate-limit:unknown''"
    by (simp add: defaultKeyGenerator_def ctx0_def js_or_def)
  from rateLimiterByUser_without_user [OF u] rateLimiterByUser_without_user [OF u0] u d d0
  show ?thesis by simp
qed

section \<open>Roles and permissions\<close>

lemma load_user_found:
  "jwtPayload c = Some p \<Longrightarrow> findUnique (sub p) = Inr (Some u) \<Longrightarrow> load_user findUnique c = Inr u"
  by (simp add: load_user_def)

lemma load_user_missing:
  "jwtPayload c = Some p \<Longrightarrow> findUnique (sub p) = Inr None \<Longrightarrow>
   load_user findUnique c = Inl (Thrown (HTTPException NOT_FOUND ''User not found''))"
  by (simp add: load_user_def)

text \<open>
  C6. For a context that holds claims whose subject exists, \<^verbatim>\<open>requireAllRoles([])\<close>
  hands over to the next stage and \<^verbatim>\<open>requireAnyRole([])\<close> throws 403, whatever roles
  the subject holds.
\<close>

theorem empty_role_lists:
  assumes "jwtPayload c = Some p" and "findUnique (sub p) = Inr (Some u)"
  shows "requireAllRoles [] findUnique c = Next
       \<and> requireAnyRole [] findUnique c = Thrown (HTTPException 403 ''Access denied'')"
  using load_user_found [of c p findUnique u] assms
  by (simp add: requireAllRoles_def requireAnyRole_def access_denied_def FORBIDDEN_def
      list_ex_iff)

theorem empty_role_lists_witness:
  "jwtPayload ctx_alice = Some alice \<and> one_user (sub alice) = Inr (Some user42)
   \<and> user_roles user42 = [analyst, editor]
   \<and> requireAllRoles [] one_user ctx_alice = Next
   \<and> requireAnyRole [] one_user ctx_alice = Thrown (HTTPException 403 ''Access denied'')"
proof -
  have a: "jwtPayload ctx_alice = Some alice" by (simp add: ctx_alice_def ctx0_def)
  have b: "one_user (sub alice) = Inr (Some user42)" by (simp add: one_user_def alice_def)
  from empty_role_lists [of ctx_alice alice one_user user42] a b show ?thesis by (simp add: user42_def)
qed

text \<open>
  C2, as stated, fails: for claims whose subject has no row, \<^verbatim>\<open>requireRole\<close> and
  \<^verbatim>\<open>requirePermission\<close> throw 404, not 403.
\<close>

theorem subject_not_found_counterexample:
  "jwtPayload ctx_alice = Some alice \<and> no_users (sub alice) = Inr None
   \<and> requireRole ''admin'' no_users ctx_alice = Thrown (HTTPException 404 ''User not found'')
   \<and> requireRole ''admin'' no_users ctx_alice \<noteq> Thrown (HTTPException 403 ''User not found'')
   \<and> requirePermission ''user.read'' no_users ctx_alice = Thrown (HTTPException 404 ''User not found'')"
  by (simp add: requireRole_def requirePermission_def load_user_def ctx_alice_def ctx0_def
      no_users_def NOT_FOUND_def)

text \<open>
  C2, amended. For claims whose subject id has no row in the database, each of the six
  authorization middlewares throws \<^verbatim>\<open>HTTPException(404, "User not found")\<close>.
\<close>

theorem subject_not_found:
  assumes "jwtPayload c = Some p" and "findUnique (sub p) = Inr None"
  shows "requireRole roleName findUnique c = Thrown (HTTPException 404 ''User not found'')
       \<and> requireAnyRole roleNames findUnique c = Thrown (HTTPException 404 ''User not found'')
       \<and> requireAllRoles roleNames findUnique c = Thrown (HTTPException 404 ''User not found'')
       \<and> requirePermission permissionName findUnique c
           = Thrown (HTTPException 404 ''User not found'')
       \<and> requireAnyPermission permissionNames findUnique c
           = Thrown (HTTPException 404 ''User not found'')
       \<and> requireAllPermissions permissionNames findUnique c
           = Thrown (HTTPException 404 ''User not found'')"
  using load_user_missing [of c p findUnique] assms
  by (simp add: requireRole_def requireAnyRole_def requireAllRoles_def requirePermission_def
      requireAnyPermission_def requireAllPermissions_def NOT_FOUND_def)

theorem subject_not_found_witness:
  "jwtPayload ctx_alice = Some alice \<and> no_users (sub alice) = Inr None
   \<and> requireAllPermissions [''user.read''] no_users ctx_alice
       = Thrown (HTTPException 404 ''User not found'')"
proof -
  have a: "jwtPayload ctx_alice = Some alice" by (simp add: ctx_alice_def ctx0_def)
  have b: "no_users (sub alice) = Inr None" by (simp add: no_users_def)
  from subject_not_found [of ctx_alice alice no_users] a b show ?thesis by simp
qed

subsection \<open>Effective permissions\<close>

lemma fold_Set_set:
  "set (fold (\<lambda>x s. if x \<in> set s then s else s @ [x]) xs acc) = set acc \<union> set xs"
  by (induction xs arbitrary: acc) auto

lemma fold_Set_distinct:
  "distinct acc \<Longrightarrow> distinct (fold (\<lambda>x s. if x \<in> set s then s else s @ [x]) xs acc)"
  by (induction xs arbitrary: acc) auto

lemma set_js_Set: "set (js_Set xs) = set xs"
  by (simp add: js_Set_def fold_Set_set)

lemma distinct_js_Set: "distinct (js_Set xs)"
  by (simp add: js_Set_def fold_Set_distinct)

lemma set_allPermissions:
  "set (allPermissions u) = (\<Union>r \<in> set (user_roles u). set (role_permissions r)) \<union> set (user_permissions u)"
  by (simp add: allPermissions_def set_js_Set)

lemma count_list_distinct: "distinct xs \<Longrightarrow> x \<in> set xs \<Longrightarrow> count_list xs x = 1"
  by (induction xs) auto

text \<open>
  C4. The effective permissions of a user are the names reached through a role or granted
  directly, each of them exactly once, and \<^verbatim>\<open>requirePermission(name)\<close> hands over to
  the next stage exactly when the name is among them (it throws 403 otherwise).
\<close>

theorem effective_permissions:
  "distinct (allPermissions u)
   \<and> set (allPermissions u)
       = (\<Union>r \<in> set (user_roles u). set (role_permissions r)) \<union> set (user_permissions u)
   \<and> (\<forall>n. n \<in> (\<Union>r \<in> set (user_roles u). set (role_permissions r)) \<union> set (user_permissions u)
         \<longrightarrow> count_list (allPermissions u) n = 1)
   \<and> (\<forall>p. jwtPayload c = Some p \<and> findUnique (sub p) = Inr (Some u) \<longrightarrow>
         (requirePermission permissionName findUnique c = Next
            \<longleftrightarrow> permissionName \<in> set (allPermissions u))
       \<and> (permissionName \<notin> set (allPermissions u) \<longrightarrow>
            requirePermission permissionName findUnique c
              = Thrown (HTTPException 403 ''Access denied'')))"
proof -
  have d: "distinct (allPermissions u)"
    by (simp add: allPermissions_def distinct_js_Set)
  have s: "set (allPermissions u)
       = (\<Union>r \<in> set (user_roles u). set (role_permissions r)) \<union> set (user_permissions u)"
    by (rule set_allPermissions)
  have once: "\<forall>n. n \<in> (\<Union>r \<in> set (user_roles u). set (role_permissions r)) \<union> set (user_permissions u)
         \<longrightarrow> count_list (allPermissions u) n = 1"
    using count_list_distinct [OF d] unfolding s [symmetric] by blast
  have dec: "\<forall>p. jwtPayload c = Some p \<and> findUnique (sub p) = Inr (Some u) \<longrightarrow>
         (requirePermission permissionName findUnique c = Next
            \<longleftrightarrow> permissionName \<in> set (allPermissions u))
       \<and> (permissionName \<notin> set (allPermissions u) \<longrightarrow>
            requirePermission permissionName findUnique c
              = Thrown (HTTPException 403 ''Access denied''))"
    by (auto simp: requirePermission_def load_user_def access_denied_def FORBIDDEN_def)
  from d s once dec show ?thesis by blast
qed

theorem effective_permissions_witness:
  "allPermissions user42 = [''report.view'', ''post.publish'']
   \<and> count_list (allPermissions user42) ''report.view'' = 1
   \<and> requirePermission ''post.publish'' one_user ctx_alice = Next
   \<and> requirePermission ''post.delete'' one_user ctx_alice
       = Thrown (HTTPException 403 ''Access denied'')"
proof -
  have a: "jwtPayload ctx_alice = Some alice" by (simp add: ctx_alice_def ctx0_def)
  have b: "one_user (sub alice) = Inr (Some user42)" by (simp add: one_user_def alice_def)
  have v: "allPermissions user42 = [''report.view'', ''post.publish'']"
    by (simp add: allPermissions_def user42_def analyst_def editor_def js_Set_def)
  from effective_permissions [of user42 ctx_alice one_user "''post.publish''"]
    effective_permissions [of user42 ctx_alice one_user "''post.delete''"] a b v
  show ?thesis by (simp add: user42_def analyst_def editor_def)
qed

section \<open>Tokens\<close>



subsection \<open>Authentication middleware\<close>

text \<open>Without a header that starts with \<^verbatim>\<open>Bearer\<close> and a space, the answer is 401 and \<^verbatim>\<open>next\<close> is not called.\<close>

lemma authMiddleware_without_bearer:
  "req_header c ''Authorization'' = None
     \<or> (\<exists>auth. req_header c ''Authorization'' = Some auth \<and> \<not> startsWith auth ''Bearer '') \<Longrightarrow>
   authMiddleware verify e next c = (Answered ''Invalid or expired token'' 401, c)"
  by (auto simp: authMiddleware_def UNAUTHORIZED_def)

text \<open>With such a header, \<^verbatim>\<open>next\<close> is called whatever the token is.\<close>

lemma authMiddleware_bearer_calls_next:
  assumes "req_header c ''Authorization'' = Some auth" and "startsWith auth ''Bearer ''"
  shows "fst (authMiddleware verify e next c)
           \<in> {Called_next, Called_next_then_answered ''Invalid or expired token'' 401}"
  using assms by (simp add: authMiddleware_def Let_def UNAUTHORIZED_def split: option.splits)

text \<open>
  C1 at a failing input. The header \<^verbatim>\<open>Authorization: Bearer not.a.token\<close> carries a
  token that \<^verbatim>\<open>verify\<close> rejects. \<^verbatim>\<open>verifyAccessToken\<close> returns \<^verbatim>\<open>null\<close> instead of
  throwing, so the middleware stores \<^verbatim>\<open>null\<close> as \<^verbatim>\<open>jwtPayload\<close> and calls \<^verbatim>\<open>next\<close>:
  the request is not answered with 401 before the downstream stage runs. A header of
  another scheme is answered with 401.
\<close>

theorem authMiddleware_invalid_token_calls_next:
  "verifyAccessToken verify_none env0 ''not.a.token'' = None
   \<and> authMiddleware verify_none env0 next_ok ctx_bad_token
       = (Called_next, ctx_bad_token\<lparr>jwtPayload := None\<rparr>)
   \<and> authMiddleware verify_none env0 next_ok ctx_basic_auth
       = (Answered ''Invalid or expired token'' 401, ctx_basic_auth)"
  by (simp add: authMiddleware_def verifyAccessToken_def verify_none_def next_ok_def
      ctx_bad_token_def ctx_basic_auth_def ctx0_def UNAUTHORIZED_def)

section \<open>Rate limiter: store failures\<close>

lemma limiter_try_zRemRangeByScore_fails:
  "failing redis ZREMRANGEBYSCORE \<Longrightarrow>
   limiter_try mx w h key now rnd c redis = Inl (redis_error ZREMRANGEBYSCORE, c, redis)"
  by (simp add: limiter_try_def zRemRangeByScore_def)

lemma limiter_try_zCard_fails:
  "failing redis ZCARD \<Longrightarrow> \<exists>x. limiter_try mx w h key now rnd c redis = Inl x"
  by (simp add: limiter_try_def zRemRangeByScore_def zCard_def put_def del_def evict_def Let_def
      split: option.splits)

lemma limiter_try_not_Thrown:
  "limiter_try mx w h key now rnd c redis = Inr (res, c', r') \<Longrightarrow> res \<noteq> Thrown err"
  by (auto simp: limiter_try_def Let_def split: sum.splits if_splits)

section \<open>Rate limiter: the sliding window\<close>

subsection \<open>Store commands\<close>

lemma zsets_del: "zsets (del key r) k = (if k = key then [] else zsets r k)"
  by (simp add: del_def)

lemma expire_at_del: "expire_at (del key r) k = (if k = key then None else expire_at r k)"
  by (simp add: del_def)

lemma failing_del: "failing (del key r) = failing r"
  by (simp add: del_def)

lemma zsets_put: "zsets (put key zs r) k = (if k = key then zs else zsets r k)"
  by (simp add: put_def del_def)

lemma zsets_put_same: "zsets (put key zs r) key = zs"
  by (simp add: zsets_put)

lemma expire_at_put:
  "expire_at (put key zs r) k = (if k = key \<and> zs = [] then None else expire_at r k)"
  by (simp add: put_def del_def)

lemma failing_put: "failing (put key zs r) = failing r"
  by (simp add: put_def del_def)

lemma failing_evict: "failing (evict now key r) = failing r"
  by (simp add: evict_def del_def split: option.splits)

lemma evict_settled:
  "(\<forall>d. expire_at r key = Some d \<longrightarrow> now \<le> d) \<Longrightarrow> evict now key r = r"
  by (auto simp: evict_def split: option.splits)

lemma settled_evict: "expire_at (evict now key r) key = Some d \<Longrightarrow> now \<le> d"
  by (auto simp: evict_def del_def split: option.splits if_splits)

lemma evict_put_evict:
  "evict now key (put key zs (evict now key r)) = put key zs (evict now key r)"
  by (rule evict_settled) (auto simp: expire_at_put dest: settled_evict)

lemma entries_put_evict: "entries (put key zs (evict now key r)) now key = zs"
  by (simp add: entries_def evict_put_evict zsets_put)

lemma length_entries: "length (entries r now key) \<le> length (zsets r key)"
  by (simp add: entries_def evict_def del_def split: option.splits)

subsection \<open>One request\<close>

text \<open>When pruning and counting succeed, the body of the limiter reduces to its decision.\<close>

lemma limiter_try_counted:
  assumes "\<not> failing r ZREMRANGEBYSCORE" and "\<not> failing r ZCARD"
  shows "limiter_try mx w h key now rnd c r =
     (let pruned = filter (\<lambda>(member, score). \<not> (0 \<le> score \<and> score \<le> now - w * 1000))
                     (entries r now key);
          r1 = put key pruned (evict now key r);
          c3 = header (header (header c ''X-RateLimit-Limit'' (toString mx))
                  ''X-RateLimit-Remaining'' (toString (max 0 (mx - int (length pruned) - 1))))
                  ''X-RateLimit-Reset'' (toString (ceil_div_1000 (now + w * 1000)));
          c4 = header c3 ''Retry-After'' (toString w)
      in if mx \<le> int (length pruned) then Inr (Json (fst (h c4)) (snd (h c4)), c4, r1)
         else (case zAdd r1 now key now (toString now @ ''-'' @ rnd) of
                 Inl err \<Rightarrow> Inl (err, c3, r1)
               | Inr r2 \<Rightarrow>
                   (case expire r2 now key w of
                      Inl err \<Rightarrow> Inl (err, c3, r2)
                    | Inr r3 \<Rightarrow> Inr (Next, c3, r3))))"
proof -
  let ?pruned = "filter (\<lambda>(member, score). \<not> (0 \<le> score \<and> score \<le> now - w * 1000))
                     (entries r now key)"
  let ?r1 = "put key ?pruned (evict now key r)"
  have rem: "zRemRangeByScore r now key 0 (now - w * 1000) = Inr ?r1"
    using assms(1) by (simp add: zRemRangeByScore_def entries_def Let_def)
  have card: "zCard ?r1 now key = Inr (int (length ?pruned))"
    using assms(2) by (simp add: zCard_def failing_put failing_evict entries_put_evict)
  show ?thesis
    unfolding limiter_try_def Let_def rem card sum.case by (rule refl)
qed


lemma settled_put:
  "(\<forall>d. expire_at r key = Some d \<longrightarrow> now \<le> d) \<Longrightarrow>
   (\<forall>d. expire_at (put key zs r) key = Some d \<longrightarrow> now \<le> d)"
  by (simp add: expire_at_put)

lemma zAdd_settled:
  assumes "\<not> failing r ZADD" and "\<forall>d. expire_at r key = Some d \<longrightarrow> now \<le> d"
  shows "zAdd r now key score v =
     Inr (put key (if v \<in> set (map fst (zsets r key))
                   then map (\<lambda>(member, s). if member = v then (member, score) else (member, s))
                          (zsets r key)
                   else zsets r key @ [(v, score)]) r)"
  using assms(1) by (simp add: zAdd_def Let_def evict_settled [OF assms(2)])

lemma expire_settled:
  assumes "\<not> failing r EXPIRE" and "\<forall>d. expire_at r key = Some d \<longrightarrow> now \<le> d"
    and "zsets r key \<noteq> []"
  shows "expire r now key w =
     Inr (if w \<le> 0 then del key r
          else r\<lparr>expire_at := (expire_at r)(key \<mapsto> now + w * 1000)\<rparr>)"
  using assms(1,3) by (simp add: expire_def Let_def evict_settled [OF assms(2)])

lemma upsert_nonempty: "(if v \<in> set (map fst zs) then map f zs else zs @ [x]) \<noteq> []"
  by (cases zs) auto

text \<open>The entries of the key after \<^verbatim>\<open>ZADD\<close> of member \<open>v\<close> with the score \<open>now\<close>.\<close>

lemma limiter_try_allowed:
  assumes nofail: "\<forall>cmd. \<not> failing r cmd"
    and below: "int (length (filter (\<lambda>(member, score). \<not> (0 \<le> score \<and> score \<le> now - w * 1000))
                  (entries r now key))) < mx"
  shows "\<exists>c3 r3. limiter_try mx w h key now rnd c r = Inr (Next, c3, r3)
           \<and> failing r3 = failing r
           \<and> (\<forall>k. k \<noteq> key \<longrightarrow> zsets r3 k = zsets r k)
           \<and> length (zsets r3 key) \<le> Suc (length (zsets r key))
           \<and> (0 < w \<and> toString now @ ''-'' @ rnd \<notin> fst ` set (entries r now key) \<longrightarrow>
                zsets r3 key
                  = filter (\<lambda>(member, score). \<not> (0 \<le> score \<and> score \<le> now - w * 1000))
                      (entries r now key) @ [(toString now @ ''-'' @ rnd, now)]
                \<and> expire_at r3 key = Some (now + w * 1000))
           \<and> (filter (\<lambda>(member, score). \<not> (0 \<le> score \<and> score \<le> now - w * 1000))
                 (entries r now key) = [] \<longrightarrow>
                length (zsets r3 key) \<le> 1
                \<and> (0 < w \<longrightarrow> zsets r3 key = [(toString now @ ''-'' @ rnd, now)]
                               \<and> expire_at r3 key = Some (now + w * 1000)))"
proof -
  let ?pruned = "filter (\<lambda>(member, score). \<not> (0 \<le> score \<and> score \<le> now - w * 1000))
                     (entries r now key)"
  let ?v = "toString now @ ''-'' @ rnd"
  let ?zs2 = "if ?v \<in> set (map fst ?pruned)
              then map (\<lambda>(member, s). if member = ?v then (member, now) else (member, s)) ?pruned
              else ?pruned @ [(?v, now)]"
  let ?r1 = "put key ?pruned (evict now key r)"
  let ?r2 = "put key ?zs2 ?r1"
  let ?r3 = "if w \<le> 0 then del key ?r2
             else ?r2\<lparr>expire_at := (expire_at ?r2)(key \<mapsto> now + w * 1000)\<rparr>"
  have ne: "?zs2 \<noteq> []" by (rule upsert_nonempty)
  have s1: "\<forall>d. expire_at ?r1 key = Some d \<longrightarrow> now \<le> d"
    by (rule settled_put) (auto dest: settled_evict)
  have s2: "\<forall>d. expire_at ?r2 key = Some d \<longrightarrow> now \<le> d"
    using s1 by (rule settled_put)
  have z1: "zsets ?r1 key = ?pruned" by (rule zsets_put_same)
  have f1: "\<not> failing ?r1 ZADD" using nofail by (simp add: failing_put failing_evict)
  have add: "zAdd ?r1 now key now ?v = Inr ?r2"
    using zAdd_settled [OF f1 s1] unfolding z1 .
  have z2: "zsets ?r2 key \<noteq> []" unfolding zsets_put_same by (rule ne)
  have f2: "\<not> failing ?r2 EXPIRE" using nofail by (simp add: failing_put failing_evict)
  have exp: "expire ?r2 now key w = Inr ?r3"
    using f2 s2 z2 by (rule expire_settled)
  have run: "limiter_try mx w h key now rnd c r
      = Inr (Next, header (header (header c ''X-RateLimit-Limit'' (toString mx))
                  ''X-RateLimit-Remaining'' (toString (max 0 (mx - int (length ?pruned) - 1))))
                  ''X-RateLimit-Reset'' (toString (ceil_div_1000 (now + w * 1000))), ?r3)"
    unfolding limiter_try_counted [of r, OF nofail [rule_format] nofail [rule_format]] Let_def
    using below by (simp only: add exp sum.case if_False not_le [symmetric])
  have f: "failing ?r3 = failing r"
    by (simp add: failing_del failing_put failing_evict)
  have others: "\<forall>k. k \<noteq> key \<longrightarrow> zsets ?r3 k = zsets r k"
    by (auto simp: zsets_del zsets_put evict_def del_def split: option.splits)
  have "length ?zs2 \<le> Suc (length ?pruned)" by simp
  also have "length ?pruned \<le> length (entries r now key)" by simp
  also have "\<dots> \<le> length (zsets r key)" by (rule length_entries)
  finally have len: "length (zsets ?r3 key) \<le> Suc (length (zsets r key))"
    by (simp add: zsets_del zsets_put)
  have new: "zsets ?r3 key = ?pruned @ [(?v, now)] \<and> expire_at ?r3 key = Some (now + w * 1000)"
    if "0 < w" and "?v \<notin> fst ` set (entries r now key)"
  proof -
    from that(2) have "?v \<notin> set (map fst ?pruned)" by auto
    with that(1) show ?thesis by (simp add: zsets_put)
  qed
  have idle: "length (zsets ?r3 key) \<le> 1
        \<and> (0 < w \<longrightarrow> zsets ?r3 key = [(?v, now)] \<and> expire_at ?r3 key = Some (now + w * 1000))"
    if "?pruned = []"
    unfolding that by (simp add: zsets_put zsets_del)
  from run f others len new idle show ?thesis by blast
qed

lemma rateLimiter_checked:
  "\<not> skipped options c \<Longrightarrow>
   rateLimiter e options (Some r) now rnd c =
     (case limiter_try (max_of e options) (windowInSeconds_of e options) (handler_of options)
             (keyGenerator_of options c) now rnd c r of
        Inl (err, c', r') \<Rightarrow> (Next, c', Some r')
      | Inr (res, c', r') \<Rightarrow> (res, c', Some r'))"
  by (simp add: rateLimiter_def getRedis_def)

subsection \<open>Requests in sequence\<close>

lemma serve_burst:
  assumes "\<not> skipped options c"
  shows "(\<forall>cmd. \<not> failing r cmd) \<Longrightarrow>
     int (length (zsets r (keyGenerator_of options c))) + int (length requests) \<le> max_of e options \<Longrightarrow>
     fst (serve e options (Some r) c requests) = replicate (length requests) Next"
proof (induction requests arbitrary: r)
  case Nil
  then show ?case by simp
next
  case (Cons req requests)
  obtain now rnd where req: "req = (now, rnd)" by (cases req)
  let ?key = "keyGenerator_of options c"
  let ?w = "windowInSeconds_of e options"
  have "length (filter (\<lambda>(member, score). \<not> (0 \<le> score \<and> score \<le> now - ?w * 1000))
                  (entries r now ?key)) \<le> length (entries r now ?key)"
    by simp
  also have "\<dots> \<le> length (zsets r ?key)" by (rule length_entries)
  finally have below: "int (length (filter (\<lambda>(member, score). \<not> (0 \<le> score \<and> score \<le> now - ?w * 1000))
                  (entries r now ?key))) < max_of e options"
    using Cons.prems(2) by simp
  from limiter_try_allowed [OF Cons.prems(1) below, of "handler_of options" rnd c]
  obtain c3 r3 where
    run: "limiter_try (max_of e options) ?w (handler_of options) ?key now rnd c r = Inr (Next, c3, r3)"
    and f: "failing r3 = failing r"
    and len: "length (zsets r3 ?key) \<le> Suc (length (zsets r ?key))"
    by blast
  have step: "rateLimiter e options (Some r) now rnd c = (Next, c3, Some r3)"
    by (simp add: rateLimiter_checked [OF assms] run)
  have "fst (serve e options (Some r3) c requests) = replicate (length requests) Next"
  proof (rule Cons.IH)
    show "\<forall>cmd. \<not> failing r3 cmd" using Cons.prems(1) f by simp
    show "int (length (zsets r3 ?key)) + int (length requests) \<le> max_of e options"
      using len Cons.prems(2) by simp
  qed
  then show ?case
    by (cases "serve e options (Some r3) c requests") (simp add: req step)
qed

lemma entries_in_window:
  assumes "zsets r key = [] \<or> (\<forall>d. expire_at r key = Some d \<longrightarrow> t0 + w * 1000 \<le> d)"
    and "t < t0 + w * 1000"
  shows "entries r t key = zsets r key"
  using assms by (auto simp: entries_def evict_def del_def split: option.splits)

lemma filter_in_window:
  fixes zs :: zset
  assumes "\<forall>(m, s) \<in> set zs. t0 \<le> s" and "t < t0 + w * 1000"
  shows "filter (\<lambda>(member, score). \<not> (0 \<le> score \<and> score \<le> t - w * 1000)) zs = zs"
  using assms by (fastforce simp: filter_id_conv)

lemma serve_window:
  assumes ns: "\<not> skipped options c"
    and key: "key = keyGenerator_of options c" and w: "w = windowInSeconds_of e options"
  shows "(\<forall>cmd. \<not> failing r cmd) \<Longrightarrow>
     (\<forall>(m, s) \<in> set (zsets r key). t0 \<le> s) \<Longrightarrow>
     zsets r key = [] \<or> (\<forall>d. expire_at r key = Some d \<longrightarrow> t0 + w * 1000 \<le> d) \<Longrightarrow>
     (\<forall>(t, rnd) \<in> set requests. t0 \<le> t \<and> t < t0 + w * 1000) \<Longrightarrow>
     distinct (map fst (zsets r key) @ map (\<lambda>(t, rnd). toString t @ ''-'' @ rnd) requests) \<Longrightarrow>
     int (length (zsets r key)) + int (length requests) \<le> max_of e options \<Longrightarrow>
     \<exists>r'. serve e options (Some r) c requests = (replicate (length requests) Next, Some r')
        \<and> (\<forall>cmd. \<not> failing r' cmd)
        \<and> zsets r' key = zsets r key @ map (\<lambda>(t, rnd). (toString t @ ''-'' @ rnd, t)) requests
        \<and> (zsets r' key = [] \<or> (\<forall>d. expire_at r' key = Some d \<longrightarrow> t0 + w * 1000 \<le> d))"
proof (induction requests arbitrary: r)
  case Nil
  then show ?case by simp
next
  case (Cons req requests)
  obtain now rnd where req: "req = (now, rnd)" by (cases req)
  from Cons.prems(4) req have t: "t0 \<le> now" "now < t0 + w * 1000" by auto
  then have wpos: "0 < w" by simp
  have ent: "entries r now key = zsets r key"
    using Cons.prems(3) t(2) by (rule entries_in_window)
  have pruned: "filter (\<lambda>(member, score). \<not> (0 \<le> score \<and> score \<le> now - w * 1000))
                  (entries r now key) = zsets r key"
    unfolding ent using Cons.prems(2) t(2) by (rule filter_in_window)
  have below: "int (length (filter (\<lambda>(member, score). \<not> (0 \<le> score \<and> score \<le> now - w * 1000))
                  (entries r now key))) < max_of e options"
    unfolding pruned using Cons.prems(6) by simp
  have fresh: "toString now @ ''-'' @ rnd \<notin> fst ` set (entries r now key)"
    unfolding ent using Cons.prems(5) req by auto
  from limiter_try_allowed [OF Cons.prems(1) below, of "handler_of options" rnd c] wpos fresh
  obtain c3 r3 where
    run: "limiter_try (max_of e options) w (handler_of options) key now rnd c r = Inr (Next, c3, r3)"
    and f: "failing r3 = failing r"
    and z3: "zsets r3 key = zsets r key @ [(toString now @ ''-'' @ rnd, now)]"
    and e3: "expire_at r3 key = Some (now + w * 1000)"
    unfolding pruned by blast
  have step: "rateLimiter e options (Some r) now rnd c = (Next, c3, Some r3)"
    using run by (simp add: rateLimiter_checked [OF ns] key w)
  have "\<exists>r'. serve e options (Some r3) c requests = (replicate (length requests) Next, Some r')
        \<and> (\<forall>cmd. \<not> failing r' cmd)
        \<and> zsets r' key = zsets r3 key @ map (\<lambda>(t, rnd). (toString t @ ''-'' @ rnd, t)) requests
        \<and> (zsets r' key = [] \<or> (\<forall>d. expire_at r' key = Some d \<longrightarrow> t0 + w * 1000 \<le> d))"
  proof (rule Cons.IH)
    show "\<forall>cmd. \<not> failing r3 cmd" using Cons.prems(1) f by simp
    show "\<forall>(m, s) \<in> set (zsets r3 key). t0 \<le> s" using Cons.prems(2) t(1) z3 by auto
    show "zsets r3 key = [] \<or> (\<forall>d. expire_at r3 key = Some d \<longrightarrow> t0 + w * 1000 \<le> d)"
      using e3 t(1) by simp
    show "\<forall>(t, rnd) \<in> set requests. t0 \<le> t \<and> t < t0 + w * 1000" using Cons.prems(4) by simp
    show "distinct (map fst (zsets r3 key) @ map (\<lambda>(t, rnd). toString t @ ''-'' @ rnd) requests)"
      using Cons.prems(5) req z3 by auto
    show "int (length (zsets r3 key)) + int (length requests) \<le> max_of e options"
      using Cons.prems(6) z3 by simp
  qed
  then obtain r' where
    "serve e options (Some r3) c requests = (replicate (length requests) Next, Some r')"
    "\<forall>cmd. \<not> failing r' cmd"
    "zsets r' key = zsets r3 key @ map (\<lambda>(t, rnd). (toString t @ ''-'' @ rnd, t)) requests"
    "zsets r' key = [] \<or> (\<forall>d. expire_at r' key = Some d \<longrightarrow> t0 + w * 1000 \<le> d)"
    by blast
  then show ?case
    by (simp add: req step z3)
qed

subsection \<open>The window\<close>

lemma filter_nonneg:
  fixes zs :: zset
  assumes "\<forall>(m, s) \<in> set zs. 0 \<le> s"
  shows "filter (\<lambda>(member, score). \<not> (0 \<le> score \<and> score \<le> b)) zs
           = filter (\<lambda>(m, s). b < s) zs"
  using assms by (intro filter_cong) auto

lemma entries_after_expire:
  "expire_at r key = Some d \<Longrightarrow> now \<le> d \<Longrightarrow> entries r now key = zsets r key"
  by (simp add: entries_def evict_def)

text \<open>
  C3, as stated, fails in two ways. At the boundary of the window: with a limit of one
  request per second, a request at time 1000 leaves one entry with timestamp 1000. At time
  2000 this entry satisfies \<open>timestamp \<ge> now - windowDuration\<close>, so the count of the claim
  is 1, which is not below the limit; but \<^verbatim>\<open>ZREMRANGEBYSCORE\<close> removes scores up to and
  including \<open>now - windowDuration\<close>, and the request is allowed. And for requests that
  overlap: under the same limit, two requests at times 1000 and 1001 of which the second
  counts before the first has recorded are both let through, and both are recorded.
\<close>

theorem sliding_window_counterexample:
  "entries redis_after_1000 2000 ''rate-limit:9.9.9.9'' = [(''1000-0.1'', 1000)]
   \<and> \<not> int (length (filter (\<lambda>(m, s). 2000 - 1 * 1000 \<le> s)
                      (entries redis_after_1000 2000 ''rate-limit:9.9.9.9''))) < 1
   \<and> fst (rateLimiter env0 one_per_second (Some redis_after_1000) 2000 ''0.2'' ctx_real_ip) = Next
   \<and> fst (serve env0 one_per_second (Some redis_empty) ctx_real_ip [(1000, ''0.1''), (2000, ''0.2'')])
       = [Next, Next]
   \<and> (case overlapping 1 1 ''rate-limit:9.9.9.9'' (1000, ''0.1'') (1001, ''0.2'') redis_empty of
         Inl err \<Rightarrow> None
       | Inr (a, b, r) \<Rightarrow> Some (a, b, entries r 1001 ''rate-limit:9.9.9.9''))
       = Some (True, True, [(''1000-0.1'', 1000), (''1001-0.2'', 1001)])"
  by code_simp

lemma limiter_try_full:
  assumes nf: "\<not> failing r ZREMRANGEBYSCORE" "\<not> failing r ZCARD"
    and full: "mx \<le> int (length (filter (\<lambda>(member, score). \<not> (0 \<le> score \<and> score \<le> now - w * 1000))
                  (entries r now key)))"
  shows "\<exists>c4. limiter_try mx w h key now rnd c r
            = Inr (Json (fst (h c4)) (snd (h c4)), c4,
                   put key (filter (\<lambda>(member, score). \<not> (0 \<le> score \<and> score \<le> now - w * 1000))
                              (entries r now key)) (evict now key r))
          \<and> res_header c4 ''Retry-After'' = Some (toString w)"
proof -
  have "limiter_try mx w h key now rnd c r =
     (let pruned = filter (\<lambda>(member, score). \<not> (0 \<le> score \<and> score \<le> now - w * 1000))
                     (entries r now key);
          r1 = put key pruned (evict now key r);
          c3 = header (header (header c ''X-RateLimit-Limit'' (toString mx))
                  ''X-RateLimit-Remaining'' (toString (max 0 (mx - int (length pruned) - 1))))
                  ''X-RateLimit-Reset'' (toString (ceil_div_1000 (now + w * 1000)));
          c4 = header c3 ''Retry-After'' (toString w)
      in Inr (Json (fst (h c4)) (snd (h c4)), c4, r1))"
    unfolding limiter_try_counted [OF nf] Let_def using full by simp
  then show ?thesis by (simp add: Let_def header_def)
qed

lemma window_decision:
  assumes ns: "\<not> skipped options c" and nofail: "\<forall>cmd. \<not> failing redis cmd"
    and mx: "mx = max_of e options" and w: "w = windowInSeconds_of e options"
    and key: "key = keyGenerator_of options c" and h: "h = handler_of options"
    and nonneg: "\<forall>(m, s) \<in> set (entries redis now key). 0 \<le> s"
  shows "(int (length (filter (\<lambda>(m, s). now - w * 1000 < s) (entries redis now key))) < mx \<longrightarrow>
            (\<exists>c' redis'. rateLimiter e options (Some redis) now rnd c = (Next, c', Some redis')
               \<and> (0 < w \<and> toString now @ ''-'' @ rnd \<notin> fst ` set (entries redis now key) \<longrightarrow>
                    entries redis' now key
                      = filter (\<lambda>(m, s). now - w * 1000 < s) (entries redis now key)
                          @ [(toString now @ ''-'' @ rnd, now)])))
       \<and> (mx \<le> int (length (filter (\<lambda>(m, s). now - w * 1000 < s) (entries redis now key))) \<longrightarrow>
            (\<exists>c' redis'. rateLimiter e options (Some redis) now rnd c
                             = (Json (fst (h c')) (snd (h c')), c', Some redis')
               \<and> res_header c' ''Retry-After'' = Some (toString w)
               \<and> entries redis' now key
                    = filter (\<lambda>(m, s). now - w * 1000 < s) (entries redis now key)))"
proof (intro conjI impI)
  assume "int (length (filter (\<lambda>(m, s). now - w * 1000 < s) (entries redis now key))) < mx"
  then have below: "int (length (filter (\<lambda>(member, score). \<not> (0 \<le> score \<and> score \<le> now - w * 1000))
                  (entries redis now key))) < mx"
    by (simp only: filter_nonneg [OF nonneg])
  from limiter_try_allowed [OF nofail below, of h rnd c]
  obtain c3 r3 where
    run: "limiter_try mx w h key now rnd c redis = Inr (Next, c3, r3)"
    and new: "0 < w \<and> toString now @ ''-'' @ rnd \<notin> fst ` set (entries redis now key) \<longrightarrow>
                zsets r3 key
                  = filter (\<lambda>(member, score). \<not> (0 \<le> score \<and> score \<le> now - w * 1000))
                      (entries redis now key) @ [(toString now @ ''-'' @ rnd, now)]
                \<and> expire_at r3 key = Some (now + w * 1000)"
    by blast
  have step: "rateLimiter e options (Some redis) now rnd c = (Next, c3, Some r3)"
    using run by (simp add: rateLimiter_checked [OF ns] mx w key h)
  have "entries r3 now key
          = filter (\<lambda>(m, s). now - w * 1000 < s) (entries redis now key)
              @ [(toString now @ ''-'' @ rnd, now)]"
    if "0 < w \<and> toString now @ ''-'' @ rnd \<notin> fst ` set (entries redis now key)"
  proof -
    from new that have z: "zsets r3 key
                  = filter (\<lambda>(member, score). \<not> (0 \<le> score \<and> score \<le> now - w * 1000))
                      (entries redis now key) @ [(toString now @ ''-'' @ rnd, now)]"
      and x: "expire_at r3 key = Some (now + w * 1000)" by blast+
    from that have "now \<le> now + w * 1000" by simp
    from entries_after_expire [OF x this] z show ?thesis
      by (simp only: filter_nonneg [OF nonneg])
  qed
  with step show "\<exists>c' redis'. rateLimiter e options (Some redis) now rnd c = (Next, c', Some redis')
               \<and> (0 < w \<and> toString now @ ''-'' @ rnd \<notin> fst ` set (entries redis now key) \<longrightarrow>
                    entries redis' now key
                      = filter (\<lambda>(m, s). now - w * 1000 < s) (entries redis now key)
                          @ [(toString now @ ''-'' @ rnd, now)])"
    by blast
next
  assume "mx \<le> int (length (filter (\<lambda>(m, s). now - w * 1000 < s) (entries redis now key)))"
  then have full: "mx \<le> int (length (filter (\<lambda>(member, score). \<not> (0 \<le> score \<and> score \<le> now - w * 1000))
                  (entries redis now key)))"
    by (simp only: filter_nonneg [OF nonneg])
  have nf: "\<not> failing redis ZREMRANGEBYSCORE" "\<not> failing redis ZCARD" using nofail by simp_all
  from limiter_try_full [OF nf full, of h rnd c]
  obtain c4 where
    run: "limiter_try mx w h key now rnd c redis
            = Inr (Json (fst (h c4)) (snd (h c4)), c4,
                   put key (filter (\<lambda>(member, score). \<not> (0 \<le> score \<and> score \<le> now - w * 1000))
                              (entries redis now key)) (evict now key redis))"
    and ra: "res_header c4 ''Retry-After'' = Some (toString w)"
    by blast
  have step: "rateLimiter e options (Some redis) now rnd c
      = (Json (fst (h c4)) (snd (h c4)), c4,
         Some (put key (filter (\<lambda>(member, score). \<not> (0 \<le> score \<and> score \<le> now - w * 1000))
                          (entries redis now key)) (evict now key redis)))"
    using run by (simp add: rateLimiter_checked [OF ns] mx w key h)
  have "entries (put key (filter (\<lambda>(member, score). \<not> (0 \<le> score \<and> score \<le> now - w * 1000))
                          (entries redis now key)) (evict now key redis)) now key
          = filter (\<lambda>(m, s). now - w * 1000 < s) (entries redis now key)"
    by (simp only: entries_put_evict filter_nonneg [OF nonneg])
  with step ra show "\<exists>c' redis'. rateLimiter e options (Some redis) now rnd c
                             = (Json (fst (h c')) (snd (h c')), c', Some redis')
               \<and> res_header c' ''Retry-After'' = Some (toString w)
               \<and> entries redis' now key
                    = filter (\<lambda>(m, s). now - w * 1000 < s) (entries redis now key)"
    by blast
qed


text \<open>The two halves, run back to back, are the body of the limiter.\<close>

lemma limiter_try_halves:
  assumes "limiter_count w key now r = Inr (n, r1)"
  shows "mx \<le> n \<Longrightarrow>
           \<exists>c4. limiter_try mx w h key now rnd c r = Inr (Json (fst (h c4)) (snd (h c4)), c4, r1)"
    and "\<not> mx \<le> n \<Longrightarrow> limiter_record w key now rnd r1 = Inr r3 \<Longrightarrow>
           \<exists>c3. limiter_try mx w h key now rnd c r = Inr (Next, c3, r3)"
  using assms
  by (auto simp: limiter_count_def limiter_record_def limiter_try_def Let_def split: sum.splits)

lemma idle_pruned:
  fixes zs :: zset
  assumes "\<forall>(m, s) \<in> set zs. 0 \<le> s \<and> s \<le> b"
  shows "filter (\<lambda>(member, score). \<not> (0 \<le> score \<and> score \<le> b)) zs = []"
  using assms by (auto simp: filter_empty_conv)

lemma serve_idle_burst:
  assumes ns: "\<not> skipped options c" and nofail: "\<forall>cmd. \<not> failing r cmd"
    and mx: "mx = max_of e options" and w: "w = windowInSeconds_of e options"
    and key: "key = keyGenerator_of options c"
    and idle: "\<forall>t n rest. requests = (t, n) # rest \<longrightarrow>
                 (\<forall>(m, s) \<in> set (entries r t key). 0 \<le> s \<and> s \<le> t - w * 1000)"
    and len: "int (length requests) \<le> mx"
  shows "fst (serve e options (Some r) c requests) = replicate (length requests) Next"
proof (cases requests)
  case Nil
  then show ?thesis by simp
next
  case (Cons req rest)
  obtain now rnd where req: "req = (now, rnd)" by (cases req)
  from idle Cons req have "\<forall>(m, s) \<in> set (entries r now key). 0 \<le> s \<and> s \<le> now - w * 1000"
    by blast
  then have pruned: "filter (\<lambda>(member, score). \<not> (0 \<le> score \<and> score \<le> now - w * 1000))
                       (entries r now key) = []"
    by (rule idle_pruned)
  have below: "int (length (filter (\<lambda>(member, score). \<not> (0 \<le> score \<and> score \<le> now - w * 1000))
                  (entries r now key))) < mx"
    unfolding pruned using len Cons by simp
  from limiter_try_allowed [OF nofail below, of "handler_of options" rnd c] pruned
  obtain c3 r3 where
    run: "limiter_try mx w (handler_of options) key now rnd c r = Inr (Next, c3, r3)"
    and f: "failing r3 = failing r"
    and l3: "length (zsets r3 key) \<le> 1"
    by blast
  have step: "rateLimiter e options (Some r) now rnd c = (Next, c3, Some r3)"
    using run by (simp add: rateLimiter_checked [OF ns] mx w key)
  have "fst (serve e options (Some r3) c rest) = replicate (length rest) Next"
  proof (rule serve_burst [OF ns])
    show "\<forall>cmd. \<not> failing r3 cmd" using nofail f by simp
    show "int (length (zsets r3 (keyGenerator_of options c))) + int (length rest) \<le> max_of e options"
      using l3 len Cons by (simp add: key [symmetric] mx [symmetric])
  qed
  then show ?thesis
    by (cases "serve e options (Some r3) c rest") (simp add: Cons req step)
qed


text \<open>The last request of a full window, on a store that holds the requests before it.\<close>

lemma overflow_denied:
  assumes ns: "\<not> skipped options c" and nofail: "\<forall>cmd. \<not> failing r' cmd"
    and mx: "mx = max_of e options" and w: "w = windowInSeconds_of e options"
    and key: "key = keyGenerator_of options c" and h: "h = handler_of options"
    and z': "zsets r' key = map (\<lambda>(t, n). (toString t @ ''-'' @ n, t)) requests"
    and x': "zsets r' key = [] \<or> (\<forall>d. expire_at r' key = Some d \<longrightarrow> t0 + w * 1000 \<le> d)"
    and times: "\<forall>(t, n) \<in> set requests. t0 \<le> t"
    and now: "now < t0 + w * 1000"
    and len: "int (length requests) = mx"
  shows "\<exists>c' redis''.
           rateLimiter e options (Some r') now rnd c
               = (Json (fst (h c')) (snd (h c')), c', Some redis'')
           \<and> res_header c' ''Retry-After'' = Some (toString w)
           \<and> int (length (entries r' now key)) = mx
           \<and> entries redis'' now key = entries r' now key"
proof -
  have ent: "entries r' now key = zsets r' key"
    using x' now by (rule entries_in_window)
  have "\<forall>(m, s) \<in> set (zsets r' key). t0 \<le> s" using times by (auto simp: z')
  then have pruned: "filter (\<lambda>(member, score). \<not> (0 \<le> score \<and> score \<le> now - w * 1000))
                  (entries r' now key) = entries r' now key"
    unfolding ent using now by (rule filter_in_window)
  have count: "int (length (entries r' now key)) = mx"
    using len by (simp add: ent z')
  have nf: "\<not> failing r' ZREMRANGEBYSCORE" "\<not> failing r' ZCARD" using nofail by simp_all
  have full: "mx \<le> int (length (filter (\<lambda>(member, score). \<not> (0 \<le> score \<and> score \<le> now - w * 1000))
                  (entries r' now key)))"
    unfolding pruned using count by simp
  from limiter_try_full [OF nf full, of h rnd c]
  obtain c4 where
    run: "limiter_try mx w h key now rnd c r'
            = Inr (Json (fst (h c4)) (snd (h c4)), c4,
                   put key (entries r' now key) (evict now key r'))"
    and ra: "res_header c4 ''Retry-After'' = Some (toString w)"
    unfolding pruned by blast
  have step: "rateLimiter e options (Some r') now rnd c
      = (Json (fst (h c4)) (snd (h c4)), c4, Some (put key (entries r' now key) (evict now key r')))"
    using run by (simp add: rateLimiter_checked [OF ns] mx w key h)
  have "entries (put key (entries r' now key) (evict now key r')) now key = entries r' now key"
    by (rule entries_put_evict)
  with step ra count show ?thesis by blast
qed

lemma window_overflow_idle:
  assumes ns: "\<not> skipped options c" and nofail: "\<forall>cmd. \<not> failing redis cmd"
    and mx: "mx = max_of e options" and w: "w = windowInSeconds_of e options"
    and key: "key = keyGenerator_of options c" and h: "h = handler_of options"
    and idle: "\<forall>t n rest. requests @ [(now, rnd)] = (t, n) # rest \<longrightarrow>
                 (\<forall>(m, s) \<in> set (entries redis t key). 0 \<le> s \<and> s \<le> t - w * 1000)"
    and len: "int (length requests) = mx"
    and times: "\<forall>(t, n) \<in> set (requests @ [(now, rnd)]). t0 \<le> t \<and> t < t0 + w * 1000"
    and nonces: "distinct (map (\<lambda>(t, n). toString t @ ''-'' @ n) requests)"
  shows "\<exists>redis' c' redis''.
           serve e options (Some redis) c requests = (replicate (length requests) Next, Some redis')
           \<and> rateLimiter e options (Some redis') now rnd c
               = (Json (fst (h c')) (snd (h c')), c', Some redis'')
           \<and> res_header c' ''Retry-After'' = Some (toString w)
           \<and> int (length (entries redis'' now key)) = mx
           \<and> (requests \<noteq> [] \<longrightarrow> entries redis'' now key = entries redis' now key)"
proof (cases requests)
  case Nil
  with idle have old: "\<forall>(m, s) \<in> set (entries redis now key). 0 \<le> s \<and> s \<le> now - w * 1000"
    by simp
  then have pruned: "filter (\<lambda>(member, score). \<not> (0 \<le> score \<and> score \<le> now - w * 1000))
                       (entries redis now key) = []"
    by (rule idle_pruned)
  have nf: "\<not> failing redis ZREMRANGEBYSCORE" "\<not> failing redis ZCARD" using nofail by simp_all
  have full: "mx \<le> int (length (filter (\<lambda>(member, score). \<not> (0 \<le> score \<and> score \<le> now - w * 1000))
                  (entries redis now key)))"
    unfolding pruned using len Nil by simp
  from limiter_try_full [OF nf full, of h rnd c]
  obtain c4 where
    run: "limiter_try mx w h key now rnd c redis
            = Inr (Json (fst (h c4)) (snd (h c4)), c4, put key [] (evict now key redis))"
    and ra: "res_header c4 ''Retry-After'' = Some (toString w)"
    unfolding pruned by blast
  have step: "rateLimiter e options (Some redis) now rnd c
      = (Json (fst (h c4)) (snd (h c4)), c4, Some (put key [] (evict now key redis)))"
    using run by (simp add: rateLimiter_checked [OF ns] mx w key h)
  have "entries (put key [] (evict now key redis)) now key = []"
    by (rule entries_put_evict)
  with step ra len Nil show ?thesis by simp
next
  case (Cons req rest)
  obtain t1 n1 where req: "req = (t1, n1)" by (cases req)
  from times Cons req have t1: "t0 \<le> t1" "t1 < t0 + w * 1000" by auto
  then have wpos: "0 < w" by simp
  from times have now: "now < t0 + w * 1000" by simp
  from idle Cons req have "\<forall>(m, s) \<in> set (entries redis t1 key). 0 \<le> s \<and> s \<le> t1 - w * 1000"
    by simp
  then have pruned: "filter (\<lambda>(member, score). \<not> (0 \<le> score \<and> score \<le> t1 - w * 1000))
                       (entries redis t1 key) = []"
    by (rule idle_pruned)
  have below: "int (length (filter (\<lambda>(member, score). \<not> (0 \<le> score \<and> score \<le> t1 - w * 1000))
                  (entries redis t1 key))) < mx"
    unfolding pruned using len Cons by simp
  from limiter_try_allowed [OF nofail below, of "handler_of options" n1 c] pruned wpos
  obtain c3 r3 where
    run: "limiter_try mx w (handler_of options) key t1 n1 c redis = Inr (Next, c3, r3)"
    and f: "failing r3 = failing redis"
    and z3: "zsets r3 key = [(toString t1 @ ''-'' @ n1, t1)]"
    and e3: "expire_at r3 key = Some (t1 + w * 1000)"
    by blast
  have step: "rateLimiter e options (Some redis) t1 n1 c = (Next, c3, Some r3)"
    using run by (simp add: rateLimiter_checked [OF ns] mx w key)
  have nofail3: "\<forall>cmd. \<not> failing r3 cmd" using nofail f by simp
  have "\<exists>r'. serve e options (Some r3) c rest = (replicate (length rest) Next, Some r')
        \<and> (\<forall>cmd. \<not> failing r' cmd)
        \<and> zsets r' key = zsets r3 key @ map (\<lambda>(t, rnd). (toString t @ ''-'' @ rnd, t)) rest
        \<and> (zsets r' key = [] \<or> (\<forall>d. expire_at r' key = Some d \<longrightarrow> t0 + w * 1000 \<le> d))"
  proof (rule serve_window [OF ns key w nofail3])
    show "\<forall>(m, s) \<in> set (zsets r3 key). t0 \<le> s" using t1(1) by (simp add: z3)
    show "zsets r3 key = [] \<or> (\<forall>d. expire_at r3 key = Some d \<longrightarrow> t0 + w * 1000 \<le> d)"
      using e3 t1(1) by simp
    show "\<forall>(t, rnd) \<in> set rest. t0 \<le> t \<and> t < t0 + w * 1000" using times Cons by simp
    show "distinct (map fst (zsets r3 key) @ map (\<lambda>(t, rnd). toString t @ ''-'' @ rnd) rest)"
      using nonces Cons req by (simp add: z3)
    show "int (length (zsets r3 key)) + int (length rest) \<le> max_of e options"
      using len Cons mx by (simp add: z3)
  qed
  then obtain r' where
    served': "serve e options (Some r3) c rest = (replicate (length rest) Next, Some r')"
    and nofail': "\<forall>cmd. \<not> failing r' cmd"
    and z': "zsets r' key = map (\<lambda>(t, n). (toString t @ ''-'' @ n, t)) requests"
    and x': "zsets r' key = [] \<or> (\<forall>d. expire_at r' key = Some d \<longrightarrow> t0 + w * 1000 \<le> d)"
    by (auto simp: z3 Cons req)
  have served: "serve e options (Some redis) c requests = (replicate (length requests) Next, Some r')"
    by (simp add: Cons req step served')
  have "\<forall>(t, n) \<in> set requests. t0 \<le> t" using times by auto
  from overflow_denied [OF ns nofail' mx w key h z' x' this now len, of rnd]
  obtain c' redis'' where
    "rateLimiter e options (Some r') now rnd c = (Json (fst (h c')) (snd (h c')), c', Some redis'')"
    "res_header c' ''Retry-After'' = Some (toString w)"
    "int (length (entries r' now key)) = mx"
    "entries redis'' now key = entries r' now key"
    by blast
  with served show ?thesis by auto
qed

text \<open>
  C3, amended. For a request that is checked against a store whose commands succeed and
  whose timestamps are not negative: the request is allowed exactly when fewer than \<open>max\<close>
  entries of its key have a timestamp greater than \<open>now - windowDuration\<close>; an allowed
  request with a fresh nonce adds one entry to these; a denied request carries
  \<^verbatim>\<open>Retry-After\<close> equal to the window and leaves exactly these entries, none of them new.
  For requests that are served one after the other, the first of which finds no entry of
  its key younger than a window (none at all, or entries that have lapsed): up to \<open>max\<close>
  requests are all allowed, and when \<open>max\<close> requests with distinct nonces and the next
  one fall into one window, the next one is denied with \<^verbatim>\<open>Retry-After\<close> equal to the
  window, and the key keeps its \<open>max\<close> entries as they were.
\<close>

theorem sliding_window:
  assumes "\<not> skipped options c" and "\<forall>cmd. \<not> failing redis cmd"
    and "mx = max_of e options" and "w = windowInSeconds_of e options"
    and "key = keyGenerator_of options c" and "h = handler_of options"
    and "\<forall>(m, s) \<in> set (entries redis now key). 0 \<le> s"
    and "unexpired = filter (\<lambda>(m, s). now - w * 1000 < s) (entries redis now key)"
  shows "(fst (rateLimiter e options (Some redis) now rnd c) = Next \<longleftrightarrow> int (length unexpired) < mx)
       \<and> (int (length unexpired) < mx \<and> 0 < w
            \<and> toString now @ ''-'' @ rnd \<notin> fst ` set (entries redis now key) \<longrightarrow>
          (\<exists>c' redis'. rateLimiter e options (Some redis) now rnd c = (Next, c', Some redis')
             \<and> entries redis' now key = unexpired @ [(toString now @ ''-'' @ rnd, now)]))
       \<and> (mx \<le> int (length unexpired) \<longrightarrow>
          (\<exists>c' redis'. rateLimiter e options (Some redis) now rnd c
                          = (Json (fst (h c')) (snd (h c')), c', Some redis')
             \<and> res_header c' ''Retry-After'' = Some (toString w)
             \<and> entries redis' now key = unexpired))
       \<and> ((\<forall>t n rest. requests = (t, n) # rest \<longrightarrow>
               (\<forall>(m, s) \<in> set (entries redis t key). 0 \<le> s \<and> s \<le> t - w * 1000))
            \<and> int (length requests) \<le> mx \<longrightarrow>
          fst (serve e options (Some redis) c requests) = replicate (length requests) Next)
       \<and> ((\<forall>t n rest. requests @ [(now, rnd)] = (t, n) # rest \<longrightarrow>
               (\<forall>(m, s) \<in> set (entries redis t key). 0 \<le> s \<and> s \<le> t - w * 1000))
            \<and> int (length requests) = mx
            \<and> (\<forall>(t, n) \<in> set (requests @ [(now, rnd)]). t0 \<le> t \<and> t < t0 + w * 1000)
            \<and> distinct (map (\<lambda>(t, n). toString t @ ''-'' @ n) requests) \<longrightarrow>
          (\<exists>redis' c' redis''.
             serve e options (Some redis) c requests = (replicate (length requests) Next, Some redis')
             \<and> rateLimiter e options (Some redis') now rnd c
                 = (Json (fst (h c')) (snd (h c')), c', Some redis'')
             \<and> res_header c' ''Retry-After'' = Some (toString w)
             \<and> int (length (entries redis'' now key)) = mx
             \<and> (requests \<noteq> [] \<longrightarrow> entries redis'' now key = entries redis' now key)))"
proof -
  note dec = window_decision [OF assms(1-7), where rnd = rnd, folded assms(8)]
  have iff: "fst (rateLimiter e options (Some redis) now rnd c) = Next \<longleftrightarrow> int (length unexpired) < mx"
  proof (cases "int (length unexpired) < mx")
    case True
    with dec show ?thesis by auto
  next
    case False
    then have "mx \<le> int (length unexpired)" by simp
    with dec obtain c' redis' where
      "rateLimiter e options (Some redis) now rnd c = (Json (fst (h c')) (snd (h c')), c', Some redis')"
      by blast
    with False show ?thesis by simp
  qed
  have burst: "fst (serve e options (Some redis) c requests) = replicate (length requests) Next"
    if "(\<forall>t n rest. requests = (t, n) # rest \<longrightarrow>
               (\<forall>(m, s) \<in> set (entries redis t key). 0 \<le> s \<and> s \<le> t - w * 1000))
            \<and> int (length requests) \<le> mx"
  proof (rule serve_idle_burst [OF assms(1-5)])
    show "\<forall>t n rest. requests = (t, n) # rest \<longrightarrow>
               (\<forall>(m, s) \<in> set (entries redis t key). 0 \<le> s \<and> s \<le> t - w * 1000)"
      using that by blast
    show "int (length requests) \<le> mx" using that by blast
  qed
  have over: "\<exists>redis' c' redis''.
             serve e options (Some redis) c requests = (replicate (length requests) Next, Some redis')
             \<and> rateLimiter e options (Some redis') now rnd c
                 = (Json (fst (h c')) (snd (h c')), c', Some redis'')
             \<and> res_header c' ''Retry-After'' = Some (toString w)
             \<and> int (length (entries redis'' now key)) = mx
             \<and> (requests \<noteq> [] \<longrightarrow> entries redis'' now key = entries redis' now key)"
    if "(\<forall>t n rest. requests @ [(now, rnd)] = (t, n) # rest \<longrightarrow>
               (\<forall>(m, s) \<in> set (entries redis t key). 0 \<le> s \<and> s \<le> t - w * 1000))
            \<and> int (length requests) = mx
            \<and> (\<forall>(t, n) \<in> set (requests @ [(now, rnd)]). t0 \<le> t \<and> t < t0 + w * 1000)
            \<and> distinct (map (\<lambda>(t, n). toString t @ ''-'' @ n) requests)"
  proof (rule window_overflow_idle [OF assms(1-6)])
    show "\<forall>t n rest. requests @ [(now, rnd)] = (t, n) # rest \<longrightarrow>
               (\<forall>(m, s) \<in> set (entries redis t key). 0 \<le> s \<and> s \<le> t - w * 1000)"
      using that by blast
    show "int (length requests) = mx" using that by blast
    show "\<forall>(t, n) \<in> set (requests @ [(now, rnd)]). t0 \<le> t \<and> t < t0 + w * 1000"
      using that by blast
    show "distinct (map (\<lambda>(t, n). toString t @ ''-'' @ n) requests)" using that by blast
  qed
  from iff dec burst over show ?thesis by blast
qed

text \<open>
  The witness starts from a store whose only entry for the key has lapsed: two requests
  per minute are allowed, the third within the minute is denied.
\<close>

theorem sliding_window_witness:
  "entries redis_after_1000 3000 ''rate-limit:9.9.9.9'' = []
   \<and> fst (rateLimiter env0 two_per_minute (Some redis_after_1000) 5000 ''0.3'' ctx_real_ip) = Next
   \<and> fst (serve env0 two_per_minute (Some redis_after_1000) ctx_real_ip
            [(3000, ''0.1''), (4000, ''0.2'')])
       = [Next, Next]
   \<and> (\<exists>redis' c' redis''.
         serve env0 two_per_minute (Some redis_after_1000) ctx_real_ip
            [(3000, ''0.1''), (4000, ''0.2'')]
           = ([Next, Next], Some redis')
         \<and> rateLimiter env0 two_per_minute (Some redis') 5000 ''0.3'' ctx_real_ip
             = (Json ''Too many requests, please try again later.'' 429, c', Some redis'')
         \<and> res_header c' ''Retry-After'' = Some ''60''
         \<and> int (length (entries redis'' 5000 ''rate-limit:9.9.9.9'')) = 2
         \<and> entries redis'' 5000 ''rate-limit:9.9.9.9'' = entries redis' 5000 ''rate-limit:9.9.9.9'')"
proof -
  have h1: "\<not> skipped two_per_minute ctx_real_ip"
    by (simp add: skipped_def two_per_minute_def no_options_def)
  have h2: "\<forall>cmd. \<not> failing redis_after_1000 cmd" by (simp add: redis_after_1000_def)
  have h3: "2 = max_of env0 two_per_minute"
    by (simp add: max_of_def two_per_minute_def no_options_def)
  have h4: "60 = windowInSeconds_of env0 two_per_minute"
    by (simp add: windowInSeconds_of_def two_per_minute_def no_options_def)
  have h5: "''rate-limit:9.9.9.9'' = keyGenerator_of two_per_minute ctx_real_ip"
    by (simp add: keyGenerator_of_def two_per_minute_def no_options_def defaultKeyGenerator_def
        ctx_real_ip_def ctx0_def js_or_def)
  have h6: "defaultHandler = handler_of two_per_minute"
    by (simp add: handler_of_def two_per_minute_def no_options_def)
  have e0: "entries redis_after_1000 t ''rate-limit:9.9.9.9'' = []" if "2000 < t" for t
    using that by (simp add: entries_def evict_def del_def redis_after_1000_def)
  have h7: "\<forall>(m, s) \<in> set (entries redis_after_1000 5000 ''rate-limit:9.9.9.9''). 0 \<le> s"
    by (simp add: e0)
  have h8: "[] = filter (\<lambda>(m, s). 5000 - 60 * 1000 < s)
                   (entries redis_after_1000 5000 ''rate-limit:9.9.9.9'')"
    by (simp add: e0)
  have d: "distinct (map (\<lambda>(t, n). toString t @ ''-'' @ n) [(3000, ''0.1''), (4000, ''0.2'')])"
    by code_simp
  have s60: "toString 60 = ''60''" by code_simp
  have i4: "\<forall>t n rest. [(3000, ''0.1''), (4000, ''0.2'')] = (t, n) # rest \<longrightarrow>
               (\<forall>(m, s) \<in> set (entries redis_after_1000 t ''rate-limit:9.9.9.9'').
                   0 \<le> s \<and> s \<le> t - 60 * 1000)"
    by (simp add: e0)
  have i5: "\<forall>t n rest. [(3000, ''0.1''), (4000, ''0.2'')] @ [(5000, ''0.3'')] = (t, n) # rest \<longrightarrow>
               (\<forall>(m, s) \<in> set (entries redis_after_1000 t ''rate-limit:9.9.9.9'').
                   0 \<le> s \<and> s \<le> t - 60 * 1000)"
    by (simp add: e0)
  have l4: "int (length [(3000::int, ''0.1''), (4000, ''0.2'')]) \<le> 2" by simp
  have l5: "int (length [(3000::int, ''0.1''), (4000, ''0.2'')]) = 2" by simp
  have tm: "\<forall>(t, n) \<in> set ([(3000, ''0.1''), (4000, ''0.2'')] @ [(5000, ''0.3'')]).
              (3000::int) \<le> t \<and> t < 3000 + 60 * 1000"
    by simp
  note inst = sliding_window [OF h1 h2 h3 h4 h5 h6 h7 h8, where rnd = "''0.3''"
      and requests = "[(3000, ''0.1''), (4000, ''0.2'')]" and ?t0.0 = 3000]
  from inst have one: "fst (rateLimiter env0 two_per_minute (Some redis_after_1000) 5000 ''0.3''
                         ctx_real_ip) = Next"
    by simp
  from inst i4 l4 have two: "fst (serve env0 two_per_minute (Some redis_after_1000) ctx_real_ip
            [(3000, ''0.1''), (4000, ''0.2'')]) = replicate (length [(3000::int, ''0.1''), (4000, ''0.2'')]) Next"
    by blast
  from inst i5 l5 tm d have three: "\<exists>redis' c' redis''.
         serve env0 two_per_minute (Some redis_after_1000) ctx_real_ip
            [(3000, ''0.1''), (4000, ''0.2'')]
           = (replicate (length [(3000::int, ''0.1''), (4000, ''0.2'')]) Next, Some redis')
         \<and> rateLimiter env0 two_per_minute (Some redis') 5000 ''0.3'' ctx_real_ip
             = (Json (fst (defaultHandler c')) (snd (defaultHandler c')), c', Some redis'')
         \<and> res_header c' ''Retry-After'' = Some (toString 60)
         \<and> int (length (entries redis'' 5000 ''rate-limit:9.9.9.9'')) = 2
         \<and> ([(3000::int, ''0.1''), (4000, ''0.2'')] \<noteq> [] \<longrightarrow>
              entries redis'' 5000 ''rate-limit:9.9.9.9'' = entries redis' 5000 ''rate-limit:9.9.9.9'')"
    by blast
  have zero: "entries redis_after_1000 3000 ''rate-limit:9.9.9.9'' = []" by (simp add: e0)
  from three have four: "\<exists>redis' c' redis''.
         serve env0 two_per_minute (Some redis_after_1000) ctx_real_ip
            [(3000, ''0.1''), (4000, ''0.2'')]
           = ([Next, Next], Some redis')
         \<and> rateLimiter env0 two_per_minute (Some redis') 5000 ''0.3'' ctx_real_ip
             = (Json ''Too many requests, please try again later.'' 429, c', Some redis'')
         \<and> res_header c' ''Retry-After'' = Some ''60''
         \<and> int (length (entries redis'' 5000 ''rate-limit:9.9.9.9'')) = 2
         \<and> entries redis'' 5000 ''rate-limit:9.9.9.9'' = entries redis' 5000 ''rate-limit:9.9.9.9''"
    by (simp add: s60 defaultHandler_def TOO_MANY_REQUESTS_def)
  from two have two': "fst (serve env0 two_per_minute (Some redis_after_1000) ctx_real_ip
            [(3000, ''0.1''), (4000, ''0.2'')]) = [Next, Next]"
    by simp
  from zero one two' four show ?thesis by blast
qed

subsection \<open>Response headers\<close>

lemma ceil_div_1000_ceiling: "ceil_div_1000 x = \<lceil>of_int x / (1000::real)\<rceil>"
proof -
  have "\<lfloor>of_int (- x) / (of_int 1000 :: real)\<rfloor> = (- x) div 1000"
    by (rule floor_divide_of_int_eq)
  then show ?thesis by (simp add: ceil_div_1000_def ceiling_def)
qed

lemma limiter_headers:
  assumes ns: "\<not> skipped options c"
    and nf: "\<not> failing redis ZREMRANGEBYSCORE" "\<not> failing redis ZCARD"
    and mx: "mx = max_of e options" and w: "w = windowInSeconds_of e options"
    and key: "key = keyGenerator_of options c"
    and run: "rateLimiter e options (Some redis) now rnd c = (res, c', client')"
    and n: "n = int (length (filter (\<lambda>(member, score). \<not> (0 \<le> score \<and> score \<le> now - w * 1000))
                  (entries redis now key)))"
  shows "res_header c' ''X-RateLimit-Limit'' = Some (toString mx)
       \<and> res_header c' ''X-RateLimit-Remaining'' = Some (toString (max 0 (mx - n - 1)))
       \<and> res_header c' ''X-RateLimit-Reset'' = Some (toString (ceil_div_1000 (now + w * 1000)))
       \<and> res_header c' ''Retry-After''
           = (if res = Next then res_header c ''Retry-After'' else Some (toString w))
       \<and> (res \<noteq> Next \<longleftrightarrow> mx \<le> n)"
  using run unfolding rateLimiter_checked [OF ns] limiter_try_counted [OF nf] Let_def
    mx [symmetric] w [symmetric] key [symmetric] n [symmetric]
  by (auto simp: header_def split: sum.splits if_splits)


text \<open>
  C7, as stated, fails. When the store rejects its commands, the request is checked and
  let through without any of the headers. And under a limit of zero, a request for a key
  without entries is denied.
\<close>

theorem rate_limit_headers_counterexample:
  "fst (rateLimiter env0 strictRateLimiter_options (Some redis_down) 1000 ''0.5'' ctx_real_ip) = Next
   \<and> res_header (fst (snd (rateLimiter env0 strictRateLimiter_options (Some redis_down) 1000 ''0.5''
                     ctx_real_ip))) ''X-RateLimit-Limit'' = None
   \<and> entries redis_empty 1000 ''rate-limit:9.9.9.9'' = []
   \<and> fst (rateLimiter env0 none_per_minute (Some redis_empty) 1000 ''0.5'' ctx_real_ip)
       = Json ''Too many requests, please try again later.'' 429"
  by code_simp

text \<open>
  C7, amended. For a request that is checked and for which pruning and counting succeed,
  with timestamps that are not negative and \<open>currentCount\<close> the number of entries with a
  timestamp greater than \<open>now - windowDuration\<close>: the response carries
  \<^verbatim>\<open>X-RateLimit-Limit\<close> = \<open>max\<close>, \<^verbatim>\<open>X-RateLimit-Remaining\<close> =
  \<open>max(0, max - currentCount - 1)\<close> and \<^verbatim>\<open>X-RateLimit-Reset\<close> = the ceiling of
  \<open>(now + windowDuration) / 1000\<close> in seconds; \<^verbatim>\<open>Retry-After\<close> is set, to the window,
  exactly when the request is denied. If \<open>max\<close> is at least 1 and every entry of the key is
  a full window old, the request is allowed and the remaining count is \<open>max - 1\<close>.
\<close>

theorem rate_limit_headers:
  assumes "\<not> skipped options c"
    and "\<not> failing redis ZREMRANGEBYSCORE" and "\<not> failing redis ZCARD"
    and "mx = max_of e options" and "w = windowInSeconds_of e options"
    and "key = keyGenerator_of options c"
    and "\<forall>(m, s) \<in> set (entries redis now key). 0 \<le> s"
    and "currentCount = int (length (filter (\<lambda>(m, s). now - w * 1000 < s) (entries redis now key)))"
    and "rateLimiter e options (Some redis) now rnd c = (res, c', client')"
  shows "res_header c' ''X-RateLimit-Limit'' = Some (toString mx)
       \<and> res_header c' ''X-RateLimit-Remaining'' = Some (toString (max 0 (mx - currentCount - 1)))
       \<and> res_header c' ''X-RateLimit-Reset''
           = Some (toString \<lceil>of_int (now + w * 1000) / (1000::real)\<rceil>)
       \<and> res_header c' ''Retry-After''
           = (if res = Next then res_header c ''Retry-After'' else Some (toString w))
       \<and> (res \<noteq> Next \<longleftrightarrow> mx \<le> currentCount)
       \<and> (1 \<le> mx \<and> (\<forall>(m, s) \<in> set (entries redis now key). s + w * 1000 \<le> now) \<longrightarrow>
            res = Next \<and> res_header c' ''X-RateLimit-Remaining'' = Some (toString (mx - 1)))"
proof -
  have n: "currentCount
       = int (length (filter (\<lambda>(member, score). \<not> (0 \<le> score \<and> score \<le> now - w * 1000))
                  (entries redis now key)))"
    unfolding assms(8) by (simp only: filter_nonneg [OF assms(7)])
  note hd = limiter_headers [OF assms(1-6) assms(9) n]
  have after: "res = Next \<and> res_header c' ''X-RateLimit-Remaining'' = Some (toString (mx - 1))"
    if "1 \<le> mx \<and> (\<forall>(m, s) \<in> set (entries redis now key). s + w * 1000 \<le> now)"
  proof -
    from that have "filter (\<lambda>(m, s). now - w * 1000 < s) (entries redis now key) = []"
      by (fastforce simp: filter_empty_conv)
    then have "currentCount = 0" by (simp add: assms(8))
    with hd that show ?thesis by auto
  qed
  from hd after show ?thesis by (simp only: ceil_div_1000_ceiling) blast
qed

theorem rate_limit_headers_witness:
  "entries redis_after_1000 2000 ''rate-limit:9.9.9.9'' = [(''1000-0.1'', 1000)]
   \<and> fst (rateLimiter env0 one_per_second (Some redis_after_1000) 2000 ''0.2'' ctx_real_ip) = Next
   \<and> res_header (fst (snd (rateLimiter env0 one_per_second (Some redis_after_1000) 2000 ''0.2''
                     ctx_real_ip))) ''X-RateLimit-Limit'' = Some ''1''
   \<and> res_header (fst (snd (rateLimiter env0 one_per_second (Some redis_after_1000) 2000 ''0.2''
                     ctx_real_ip))) ''X-RateLimit-Remaining'' = Some ''0''
   \<and> res_header (fst (snd (rateLimiter env0 one_per_second (Some redis_after_1000) 2000 ''0.2''
                     ctx_real_ip))) ''X-RateLimit-Reset'' = Some ''3''
   \<and> res_header (fst (snd (rateLimiter env0 one_per_second (Some redis_after_1000) 2000 ''0.2''
                     ctx_real_ip))) ''Retry-After'' = None"
proof -
  let ?out = "rateLimiter env0 one_per_second (Some redis_after_1000) 2000 ''0.2'' ctx_real_ip"
  have h1: "\<not> skipped one_per_second ctx_real_ip"
    by (simp add: skipped_def one_per_second_def no_options_def)
  have h2: "\<not> failing redis_after_1000 ZREMRANGEBYSCORE" "\<not> failing redis_after_1000 ZCARD"
    by (simp_all add: redis_after_1000_def)
  have h3: "1 = max_of env0 one_per_second"
    by (simp add: max_of_def one_per_second_def no_options_def)
  have h4: "1 = windowInSeconds_of env0 one_per_second"
    by (simp add: windowInSeconds_of_def one_per_second_def no_options_def)
  have h5: "''rate-limit:9.9.9.9'' = keyGenerator_of one_per_second ctx_real_ip"
    by (simp add: keyGenerator_of_def one_per_second_def no_options_def defaultKeyGenerator_def
        ctx_real_ip_def ctx0_def js_or_def)
  have e1: "entries redis_after_1000 2000 ''rate-limit:9.9.9.9'' = [(''1000-0.1'', 1000)]"
    by (simp add: entries_def evict_def redis_after_1000_def)
  have h7: "\<forall>(m, s) \<in> set (entries redis_after_1000 2000 ''rate-limit:9.9.9.9''). 0 \<le> s"
    by (simp add: e1)
  have h8: "0 = int (length (filter (\<lambda>(m, s). 2000 - 1 * 1000 < s)
                (entries redis_after_1000 2000 ''rate-limit:9.9.9.9'')))"
    by (simp add: e1)
  have h9: "?out = (fst ?out, fst (snd ?out), snd (snd ?out))" by simp
  have old: "\<forall>(m, s) \<in> set (entries redis_after_1000 2000 ''rate-limit:9.9.9.9''). s + 1 * 1000 \<le> 2000"
    by (simp add: e1)
  have ts: "toString 1 = ''1''" "toString 0 = ''0''" "toString 3 = ''3''" by code_simp+
  have ra: "res_header ctx_real_ip ''Retry-After'' = None"
    by (simp add: ctx_real_ip_def ctx0_def)
  from rate_limit_headers [OF h1 h2 h3 h4 h5 h7 h8 h9] old e1 ra show ?thesis
    by (simp add: ts)
qed

subsection \<open>Rejected commands, and a server out of reach\<close>

text \<open>
  Whichever commands the store rejects, a request that is checked is handed to the next
  stage, unless pruning and counting have succeeded and the count has reached the limit;
  then the request is denied before \<^verbatim>\<open>ZADD\<close> or \<^verbatim>\<open>EXPIRE\<close> is issued. In particular a
  request whose count is below the limit is let through even when \<^verbatim>\<open>ZADD\<close> or
  \<^verbatim>\<open>EXPIRE\<close> is rejected. The limiter itself never throws once it has a client.
\<close>

lemma rateLimiter_rejected_command:
  assumes ns: "\<not> skipped options c"
    and mx: "mx = max_of e options" and w: "w = windowInSeconds_of e options"
    and key: "key = keyGenerator_of options c"
    and n: "n = int (length (filter (\<lambda>(member, score). \<not> (0 \<le> score \<and> score \<le> now - w * 1000))
                  (entries redis now key)))"
  shows "(failing redis ZREMRANGEBYSCORE \<longrightarrow>
            rateLimiter e options (Some redis) now rnd c = (Next, c, Some redis))
       \<and> (failing redis ZCARD \<longrightarrow> fst (rateLimiter e options (Some redis) now rnd c) = Next)
       \<and> (n < mx \<longrightarrow> fst (rateLimiter e options (Some redis) now rnd c) = Next)
       \<and> (fst (rateLimiter e options (Some redis) now rnd c) \<noteq> Next \<longrightarrow>
            \<not> failing redis ZREMRANGEBYSCORE \<and> \<not> failing redis ZCARD \<and> mx \<le> n)
       \<and> (\<forall>err. fst (rateLimiter e options (Some redis) now rnd c) \<noteq> Thrown err)"
proof -
  let ?out = "rateLimiter e options (Some redis) now rnd c"
  let ?body = "limiter_try (max_of e options) (windowInSeconds_of e options) (handler_of options)
              (keyGenerator_of options c) now rnd c redis"
  have caught: "?out = (Next, c', Some redis')" if "?body = Inl (err, c', redis')" for err c' redis'
    using that by (simp add: rateLimiter_checked [OF ns])
  have first: "?out = (Next, c, Some redis)" if "failing redis ZREMRANGEBYSCORE"
    using limiter_try_zRemRangeByScore_fails [OF that] by (rule caught)
  have second: "fst ?out = Next" if "failing redis ZCARD"
  proof -
    from limiter_try_zCard_fails [OF that] obtain x where "?body = Inl x" by blast
    then obtain err c' redis' where "?body = Inl (err, c', redis')" by (cases x) auto
    from caught [OF this] show ?thesis by simp
  qed
  have counted: "fst ?out \<noteq> Next \<longleftrightarrow> mx \<le> n"
    if "\<not> failing redis ZREMRANGEBYSCORE" "\<not> failing redis ZCARD"
  proof -
    have "?out = (fst ?out, fst (snd ?out), snd (snd ?out))" by simp
    from limiter_headers [OF ns that mx w key this n] show ?thesis by blast
  qed
  have denied: "\<not> failing redis ZREMRANGEBYSCORE \<and> \<not> failing redis ZCARD \<and> mx \<le> n"
    if "fst ?out \<noteq> Next"
    using that first second counted by fastforce
  have below: "fst ?out = Next" if "n < mx"
    using that denied by fastforce
  have quiet: "fst ?out \<noteq> Thrown err" for err
  proof (cases ?body)
    case (Inl x)
    then obtain err' c' redis' where "?body = Inl (err', c', redis')" by (cases x) auto
    from caught [OF this] show ?thesis by simp
  next
    case (Inr y)
    then obtain res c' redis' where y: "?body = Inr (res, c', redis')" by (cases y) auto
    from limiter_try_not_Thrown [OF y] have "res \<noteq> Thrown err" .
    with y show ?thesis by (simp add: rateLimiter_checked [OF ns])
  qed
  from first second below denied quiet show ?thesis by blast
qed

lemma rateLimiter_rejected_examples:
  "rateLimiter env0 strictRateLimiter_options (Some redis_down) 1000 ''0.5'' ctx_real_ip
     = (Next, ctx_real_ip, Some redis_down)
   \<and> fst (rateLimiter env0 strictRateLimiter_options (Some redis_zadd_down) 1000 ''0.5'' ctx_real_ip)
     = Next"
proof -
  have ns: "\<not> skipped strictRateLimiter_options ctx_real_ip"
    by (simp add: skipped_def strictRateLimiter_options_def no_options_def)
  have a: "failing redis_down ZREMRANGEBYSCORE" by (simp add: redis_down_def redis_empty_def)
  have b: "(0::int) < max_of env0 strictRateLimiter_options"
    by (simp add: max_of_def strictRateLimiter_options_def no_options_def)
  have e0: "entries redis_zadd_down 1000 (keyGenerator_of strictRateLimiter_options ctx_real_ip) = []"
    by (simp add: entries_def evict_def redis_zadd_down_def redis_empty_def)
  from rateLimiter_rejected_command [OF ns refl refl refl refl, where e = env0
        and redis = redis_down and now = 1000 and rnd = "''0.5''"] a
    rateLimiter_rejected_command [OF ns refl refl refl refl, where e = env0
        and redis = redis_zadd_down and now = 1000 and rnd = "''0.5''"] b
  show ?thesis by (simp add: e0)
qed

lemma rateLimiter_on_Ready:
  "rateLimiter_on Ready e options redisClient now rnd c
     = Some (rateLimiter e options redisClient now rnd c)"
  by (simp add: rateLimiter_on_def rateLimiter_def split: sum.splits)

text \<open>
  C5 at failing inputs. While the server is out of reach, the first awaited command of a
  checked request waits in the client's offline queue: the limiter does not reach its
  \<^verbatim>\<open>catch\<close> clause and does not call \<^verbatim>\<open>next\<close>, so the request is not let through. And
  before \<^verbatim>\<open>initRedis\<close> has assigned the client, \<^verbatim>\<open>getRedis\<close>, which is called outside
  the \<^verbatim>\<open>try\<close> block, throws, and the limiter throws with it.
\<close>

theorem rateLimiter_unreachable_store:
  "rateLimiter_on Reconnecting env0 strictRateLimiter_options (Some redis_empty) 1000 ''0.5''
       ctx_real_ip = None
   \<and> rateLimiter_on Reconnecting env0 strictRateLimiter_options None 1000 ''0.5'' ctx_real_ip
       = Some (Thrown (Error ''Redis client not initialized. Call initRedis() first.''),
               ctx_real_ip, None)
   \<and> rateLimiter env0 strictRateLimiter_options None 1000 ''0.5'' ctx_real_ip
       = (Thrown (Error ''Redis client not initialized. Call initRedis() first.''),
          ctx_real_ip, None)"
  by (simp add: rateLimiter_on_def rateLimiter_def skipped_def strictRateLimiter_options_def
      no_options_def getRedis_def)

end
